theory Spec2Isabelle
  imports Complex_Main "HOL-Library.Word"
begin

section \<open>Numbers\<close>

text \<open>
  The TypeScript sources compute with \<^verbatim>\<open>number\<close>. The development reads a
  \<^verbatim>\<open>number\<close> as a real: rounding of doubles, NaN and the infinities are not part of
  it. Where the source divides by a value that can be zero and reads the quotient, the
  result the JavaScript division has there (an infinity or NaN) and what the program does
  with it are written out in the definition, since HOL's \<open>x / 0 = 0\<close> is not what the
  program computes.
\<close>

section \<open>Errors\<close>

text \<open>
  What the functions throw or reject with. Of the platform calls they make,
  \<^verbatim>\<open>getImageData\<close> raises IndexSizeError for an empty source rectangle, and a
  \<^verbatim>\<open>DataView\<close> setter and the \<^verbatim>\<open>Uint8Array\<close> constructor raise RangeError outside the
  buffer. \<open>NoCanvasContext\<close> and \<open>NoContext\<close> are the two \<^verbatim>\<open>throw new Error\<close> of
  src/lenticular-engine.ts, \<open>ImageLoadError\<close> the rejection of the promise of a frame
  whose image does not load, \<open>TypeError\<close> the reading of a property of \<^verbatim>\<open>undefined\<close>,
  which is what an array gives outside its bounds.
\<close>

datatype error =
  IndexSizeError | RangeError | NoCanvasContext | NoContext | ImageLoadError | TypeError

definition ebind :: "error + 'a \<Rightarrow> ('a \<Rightarrow> error + 'b) \<Rightarrow> error + 'b" where
  "ebind m f = (case m of Inl e \<Rightarrow> Inl e | Inr x \<Rightarrow> f x)"

section \<open>GeometryModel: \<^verbatim>\<open>calculateFOV\<close> (src/physics.ts)\<close>

definition n_air :: real where
  "n_air = 10003 / 10000"

text \<open>
  For \<open>lpi = 0\<close> the pitch \<^verbatim>\<open>25400 / lpi\<close> is \<open>+Infinity\<close> or \<open>-Infinity\<close>
  (the sign of the zero): the first is caught by \<^verbatim>\<open>r <= 0\<close> or by
  \<^verbatim>\<open>p > 2 * r\<close>, the second by \<^verbatim>\<open>p <= 0\<close>, so the function returns 0.
\<close>

definition calculateFOV :: "real \<Rightarrow> real \<Rightarrow> real \<Rightarrow> real \<Rightarrow> real" where
  "calculateFOV lpi radiusMicrons thicknessMicrons refractiveIndex =
    (if lpi = 0 then 0
     else
       let p = 25400 / lpi;
           r = radiusMicrons;
           e = thicknessMicrons;
           n = refractiveIndex
       in
         if r \<le> 0 \<or> p \<le> 0 then 0
         else if p > 2 * r then 0
         else
           let A_rad = arcsin (p / (2 * r));
               f = r - sqrt (r * r - (p / 2) * (p / 2));
               h = e - f
           in
             if h \<le> 0 then 0
             else
               let R_rad = A_rad - arctan (p / h);
                   sinI = (n * sin R_rad) / n_air
               in
                 if \<bar>sinI\<bar> > 1 then 0
                 else
                   let I_rad = arcsin sinI;
                       O_rad = 2 * (A_rad - I_rad)
                   in O_rad * 180 / pi)"

subsection \<open>The field of view of the specification\<close>

text \<open>
  Section 4.1 in its words: the pitch, the half-angle \<open>A\<close>, the sagitta, the derived
  thickness \<open>h\<close>, the Snell term against the air index 1.0003, and the cases of the
  result.
\<close>

definition spec_pitch :: "real \<Rightarrow> real" where
  "spec_pitch lpi = 25400 / lpi"

definition spec_half_angle :: "real \<Rightarrow> real \<Rightarrow> real" where
  "spec_half_angle lpi r = arcsin (spec_pitch lpi / (2 * r))"

definition spec_sagitta :: "real \<Rightarrow> real \<Rightarrow> real" where
  "spec_sagitta lpi r = r - sqrt (r\<^sup>2 - (spec_pitch lpi / 2)\<^sup>2)"

definition spec_h :: "real \<Rightarrow> real \<Rightarrow> real \<Rightarrow> real" where
  "spec_h lpi r e = e - spec_sagitta lpi r"

definition spec_sinI :: "real \<Rightarrow> real \<Rightarrow> real \<Rightarrow> real \<Rightarrow> real" where
  "spec_sinI lpi r e n =
     n * sin (spec_half_angle lpi r - arctan (spec_pitch lpi / spec_h lpi r e)) / 1.0003"

definition spec_FOV :: "real \<Rightarrow> real \<Rightarrow> real \<Rightarrow> real \<Rightarrow> real" where
  "spec_FOV lpi r e n =
     (if r \<le> 0 \<or> spec_pitch lpi \<le> 0 \<or> spec_pitch lpi > 2 * r \<or> spec_h lpi r e \<le> 0
         \<or> \<bar>spec_sinI lpi r e n\<bar> > 1
      then 0
      else 2 * (spec_half_angle lpi r - arcsin (spec_sinI lpi r e n)) * (180 / pi))"

section \<open>TiffEncoder: \<^verbatim>\<open>createTiffBlob\<close> (src/lenticular-engine.ts)\<close>

type_synonym byte = "8 word"


text \<open>
  The 2D context as the function reads it: the canvas dimensions and the RGBA bytes of
  the bitmap, row-major, four bytes a pixel.
\<close>

record canvas =
  canvas_width :: nat
  canvas_height :: nat
  canvas_data :: "byte list"

definition wf_canvas :: "canvas \<Rightarrow> bool" where
  "wf_canvas ctx \<longleftrightarrow> length (canvas_data ctx) = 4 * (canvas_width ctx * canvas_height ctx)"

definition getImageData :: "canvas \<Rightarrow> error + byte list" where
  "getImageData ctx =
     (if canvas_width ctx = 0 \<or> canvas_height ctx = 0 then Inl IndexSizeError
      else Inr (canvas_data ctx))"

text \<open>
  \<^verbatim>\<open>view.setUint16(byteOffset, value, true)\<close> and \<^verbatim>\<open>view.setUint32(byteOffset, value, true)\<close>:
  the value is reduced modulo \<open>2^16\<close> (\<open>2^32\<close>) and stored low byte first.
\<close>

definition setUint16 :: "nat \<Rightarrow> int \<Rightarrow> byte list \<Rightarrow> error + byte list" where
  "setUint16 byteOffset v view =
     (if byteOffset + 2 \<le> length view
      then Inr (view[byteOffset := word_of_int v, byteOffset + 1 := word_of_int (v div 2 ^ 8)])
      else Inl RangeError)"

definition setUint32 :: "nat \<Rightarrow> int \<Rightarrow> byte list \<Rightarrow> error + byte list" where
  "setUint32 byteOffset v view =
     (if byteOffset + 4 \<le> length view
      then Inr (view[byteOffset := word_of_int v,
                     byteOffset + 1 := word_of_int (v div 2 ^ 8),
                     byteOffset + 2 := word_of_int (v div 2 ^ 16),
                     byteOffset + 3 := word_of_int (v div 2 ^ 24)])
      else Inl RangeError)"

text \<open>
  Element access of the typed arrays: a read past the end is \<^verbatim>\<open>undefined\<close>, which a
  byte array stores as 0; a write past the end of \<^verbatim>\<open>pixels\<close> is ignored. The array
  \<^verbatim>\<open>pixels\<close> is the window of \<open>len\<close> bytes of the buffer that starts at \<open>start\<close>.
\<close>

definition data_get :: "byte list \<Rightarrow> nat \<Rightarrow> byte" where
  "data_get d i = (if i < length d then d ! i else 0)"

definition pixels_set :: "nat \<Rightarrow> nat \<Rightarrow> nat \<Rightarrow> byte \<Rightarrow> byte list \<Rightarrow> byte list" where
  "pixels_set start len k v buffer = (if k < len then buffer[start + k := v] else buffer)"

text \<open>The loop \<^verbatim>\<open>for (let i = 0; i < data.length; i += 4)\<close> with its counter \<^verbatim>\<open>ptr\<close>.\<close>

function copy_pixels :: "byte list \<Rightarrow> nat \<Rightarrow> nat \<Rightarrow> nat \<Rightarrow> nat \<Rightarrow> byte list \<Rightarrow> byte list" where
  "copy_pixels d start len i ptr buffer =
     (if i < length d
      then copy_pixels d start len (i + 4) (ptr + 3)
             (pixels_set start len (ptr + 2) (data_get d (i + 2))
               (pixels_set start len (ptr + 1) (data_get d (i + 1))
                 (pixels_set start len ptr (data_get d i) buffer)))
      else buffer)"
  by pat_completeness auto
termination
  by (relation "measure (\<lambda>(d, start, len, i, ptr, buffer). length d - i)") auto

declare copy_pixels.simps [simp del]

text \<open>The closure \<^verbatim>\<open>writeTag\<close>, with the variable \<^verbatim>\<open>offset\<close> it advances.\<close>

definition writeTag :: "int \<Rightarrow> int \<Rightarrow> int \<Rightarrow> int \<Rightarrow> byte list \<times> nat \<Rightarrow> error + byte list \<times> nat" where
  "writeTag tag type count val st =
     (case st of (view, offset) \<Rightarrow>
        ebind (setUint16 offset tag view) (\<lambda>view.
        ebind (setUint16 (offset + 2) type view) (\<lambda>view.
        ebind (setUint32 (offset + 4) count view) (\<lambda>view.
        ebind (setUint32 (offset + 8) val view) (\<lambda>view.
        Inr (view, offset + 12))))))"

text \<open>
  \<^verbatim>\<open>Math.round\<close> is \<open>\<lfloor>x + 1/2\<rfloor>\<close>, which is \<^const>\<open>round\<close>. The buffer is the list of
  its bytes, all 0 when allocated; no limit on its size is modelled.
\<close>

definition createTiffBlob :: "canvas \<Rightarrow> real \<Rightarrow> real \<Rightarrow> error + byte list" where
  "createTiffBlob ctx hppi vppi =
     (let width = canvas_width ctx;
          height = canvas_height ctx
      in
      ebind (getImageData ctx) (\<lambda>data.
      let pixelCount = width * height;
          rgbSize = pixelCount * 3;
          headerSize = 8;
          extraValuesSize = 8 + 8 + 6;
          ifdSize = 2 + (12 * 12) + 4;
          fileSize = headerSize + rgbSize + extraValuesSize + ifdSize;
          buffer = replicate fileSize (0 :: byte);
          offset = 0
      in
      ebind (setUint16 0 0x4949 buffer) (\<lambda>view.
      ebind (setUint16 2 42 view) (\<lambda>view.
      let ifdOffset = headerSize + rgbSize + extraValuesSize in
      ebind (setUint32 4 (int ifdOffset) view) (\<lambda>view.
      let offset = offset + 8;
          pixelDataStart = offset
      in
      ebind (if offset + rgbSize \<le> length view
             then Inr (copy_pixels data offset rgbSize 0 0 view) else Inl RangeError) (\<lambda>view.
      let offset = offset + rgbSize;
          xResOffset = offset
      in
      ebind (setUint32 offset (round (hppi * 100)) view) (\<lambda>view.
      ebind (setUint32 (offset + 4) 100 view) (\<lambda>view.
      let offset = offset + 8;
          yResOffset = offset
      in
      ebind (setUint32 offset (round (vppi * 100)) view) (\<lambda>view.
      ebind (setUint32 (offset + 4) 100 view) (\<lambda>view.
      let offset = offset + 8;
          bitsOffset = offset
      in
      ebind (setUint16 offset 8 view) (\<lambda>view.
      ebind (setUint16 (offset + 2) 8 view) (\<lambda>view.
      ebind (setUint16 (offset + 4) 8 view) (\<lambda>view.
      let offset = offset + 6;
          tagCount = 12
      in
      ebind (setUint16 offset tagCount view) (\<lambda>view.
      let offset = offset + 2 in
      ebind (writeTag 256 4 1 (int width) (view, offset)) (\<lambda>st.
      ebind (writeTag 257 4 1 (int height) st) (\<lambda>st.
      ebind (writeTag 258 3 3 (int bitsOffset) st) (\<lambda>st.
      ebind (writeTag 259 3 1 1 st) (\<lambda>st.
      ebind (writeTag 262 3 1 2 st) (\<lambda>st.
      ebind (writeTag 273 4 1 (int pixelDataStart) st) (\<lambda>st.
      ebind (writeTag 277 3 1 3 st) (\<lambda>st.
      ebind (writeTag 278 4 1 (int height) st) (\<lambda>st.
      ebind (writeTag 279 4 1 (int rgbSize) st) (\<lambda>st.
      ebind (writeTag 282 5 1 (int xResOffset) st) (\<lambda>st.
      ebind (writeTag 283 5 1 (int yResOffset) st) (\<lambda>st.
      ebind (writeTag 296 3 1 2 st) (\<lambda>st.
      case st of (view, offset) \<Rightarrow>
      ebind (setUint32 offset 0 view) (\<lambda>view.
      Inr view)))))))))))))))))))))))))))"

subsection \<open>The file layout of the specification\<close>

text \<open>
  The layout as the specification words it, section 4.4: header, pixel data without
  alpha, out-of-line values, the directory of 12 tags and the terminal zero. \<open>le16\<close>
  and \<open>le32\<close> are the little-endian bytes of a value reduced to the field's width.
\<close>

definition le16 :: "int \<Rightarrow> byte list" where
  "le16 v = [word_of_int v, word_of_int (v div 2 ^ 8)]"

definition le32 :: "int \<Rightarrow> byte list" where
  "le32 v = [word_of_int v, word_of_int (v div 2 ^ 8), word_of_int (v div 2 ^ 16),
             word_of_int (v div 2 ^ 24)]"

fun drop_alpha :: "byte list \<Rightarrow> byte list" where
  "drop_alpha (r # g # b # a # rest) = r # g # b # drop_alpha rest"
| "drop_alpha _ = []"

definition tiff_header :: "nat \<Rightarrow> byte list" where
  "tiff_header ifdOffset = le16 0x4949 @ le16 42 @ le32 (int ifdOffset)"

definition rational :: "int \<Rightarrow> int \<Rightarrow> byte list" where
  "rational num den = le32 num @ le32 den"

definition tiff_extras :: "real \<Rightarrow> real \<Rightarrow> byte list" where
  "tiff_extras hppi vppi =
     rational (round (hppi * 100)) 100 @ rational (round (vppi * 100)) 100
       @ le16 8 @ le16 8 @ le16 8"

type_synonym ifd_field = "nat \<times> nat \<times> nat \<times> nat"

definition ifd_entry :: "ifd_field \<Rightarrow> byte list" where
  "ifd_entry e =
     (case e of (tag, ty, cnt, v) \<Rightarrow> le16 (int tag) @ le16 (int ty) @ le32 (int cnt) @ le32 (int v))"

definition tiff_tags :: "nat \<Rightarrow> nat \<Rightarrow> ifd_field list" where
  "tiff_tags w h =
     [(256, 4, 1, w),
      (257, 4, 1, h),
      (258, 3, 3, 8 + w * h * 3 + 16),
      (259, 3, 1, 1),
      (262, 3, 1, 2),
      (273, 4, 1, 8),
      (277, 3, 1, 3),
      (278, 4, 1, h),
      (279, 4, 1, w * h * 3),
      (282, 5, 1, 8 + w * h * 3),
      (283, 5, 1, 8 + w * h * 3 + 8),
      (296, 3, 1, 2)]"

definition tiff_ifd :: "ifd_field list \<Rightarrow> byte list" where
  "tiff_ifd tags = le16 (int (length tags)) @ concat (map ifd_entry tags) @ le32 0"

definition tiff_layout :: "nat \<Rightarrow> nat \<Rightarrow> byte list \<Rightarrow> real \<Rightarrow> real \<Rightarrow> byte list" where
  "tiff_layout w h d hppi vppi =
     tiff_header (8 + w * h * 3 + 22) @ drop_alpha d @ tiff_extras hppi vppi
       @ tiff_ifd (tiff_tags w h)"

subsection \<open>A reader of the format\<close>

text \<open>
  The reader's side, for the round trip of the specification: \<^verbatim>\<open>getUint16\<close> and
  \<^verbatim>\<open>getUint32\<close> of a \<^verbatim>\<open>DataView\<close> (little-endian, \<open>None\<close> outside the buffer), the
  directory entries of 12 bytes each, and the header that points to the directory.
  \<open>reduce_field\<close> is an entry as its fields of 16 and 32 bits hold it.
\<close>

definition getUint16 :: "nat \<Rightarrow> byte list \<Rightarrow> nat option" where
  "getUint16 off buf =
     (if off + 2 \<le> length buf
      then Some (unat (buf ! off) + 2 ^ 8 * unat (buf ! (off + 1)))
      else None)"

definition getUint32 :: "nat \<Rightarrow> byte list \<Rightarrow> nat option" where
  "getUint32 off buf =
     (if off + 4 \<le> length buf
      then Some (unat (buf ! off) + 2 ^ 8 * unat (buf ! (off + 1))
                 + 2 ^ 16 * unat (buf ! (off + 2)) + 2 ^ 24 * unat (buf ! (off + 3)))
      else None)"

definition read_entry :: "byte list \<Rightarrow> nat \<Rightarrow> ifd_field option" where
  "read_entry buf off =
     (case getUint16 off buf of None \<Rightarrow> None | Some tag \<Rightarrow>
     (case getUint16 (off + 2) buf of None \<Rightarrow> None | Some ty \<Rightarrow>
     (case getUint32 (off + 4) buf of None \<Rightarrow> None | Some cnt \<Rightarrow>
     (case getUint32 (off + 8) buf of None \<Rightarrow> None | Some v \<Rightarrow> Some (tag, ty, cnt, v)))))"

fun read_entries :: "byte list \<Rightarrow> nat \<Rightarrow> nat \<Rightarrow> ifd_field list option" where
  "read_entries buf off 0 = Some []"
| "read_entries buf off (Suc n) =
     (case read_entry buf off of None \<Rightarrow> None | Some e \<Rightarrow>
     (case read_entries buf (off + 12) n of None \<Rightarrow> None | Some es \<Rightarrow> Some (e # es)))"

definition read_tiff :: "byte list \<Rightarrow> (ifd_field list \<times> nat) option" where
  "read_tiff buf =
     (case getUint16 0 buf of None \<Rightarrow> None | Some order \<Rightarrow>
     (case getUint16 2 buf of None \<Rightarrow> None | Some magic \<Rightarrow>
      if order \<noteq> 0x4949 \<or> magic \<noteq> 42 then None else
     (case getUint32 4 buf of None \<Rightarrow> None | Some ifd \<Rightarrow>
     (case getUint16 ifd buf of None \<Rightarrow> None | Some n \<Rightarrow>
     (case read_entries buf (ifd + 2) n of None \<Rightarrow> None | Some es \<Rightarrow>
     (case getUint32 (ifd + 2 + 12 * n) buf of None \<Rightarrow> None | Some nxt \<Rightarrow> Some (es, nxt)))))))"

definition read_rational :: "byte list \<Rightarrow> nat \<Rightarrow> (nat \<times> nat) option" where
  "read_rational buf off =
     (case getUint32 off buf of None \<Rightarrow> None | Some num \<Rightarrow>
     (case getUint32 (off + 4) buf of None \<Rightarrow> None | Some den \<Rightarrow> Some (num, den)))"

definition read_shorts3 :: "byte list \<Rightarrow> nat \<Rightarrow> (nat \<times> nat \<times> nat) option" where
  "read_shorts3 buf off =
     (case getUint16 off buf of None \<Rightarrow> None | Some a \<Rightarrow>
     (case getUint16 (off + 2) buf of None \<Rightarrow> None | Some b \<Rightarrow>
     (case getUint16 (off + 4) buf of None \<Rightarrow> None | Some c \<Rightarrow> Some (a, b, c))))"

definition reduce_field :: "ifd_field \<Rightarrow> ifd_field" where
  "reduce_field e = (case e of (t, ty, c, v) \<Rightarrow> (t mod 2 ^ 16, ty mod 2 ^ 16, c mod 2 ^ 32, v mod 2 ^ 32))"


subsection \<open>Two rasters\<close>

definition raster_2x2 :: canvas where
  "raster_2x2 = \<lparr>canvas_width = 2, canvas_height = 2,
     canvas_data = [10, 20, 30, 255, 40, 50, 60, 255, 70, 80, 90, 128, 100, 110, 120, 0]\<rparr>"

definition raster_1x1 :: canvas where
  "raster_1x1 = \<lparr>canvas_width = 1, canvas_height = 1, canvas_data = [10, 20, 30, 255]\<rparr>"

section \<open>Settings, frames and the canvas (src/types.ts)\<close>

datatype unit_of_length = Mm | Cm | In

datatype alignment = External | Internal | EdgeCentered

datatype direction = LR | RL

record jobSettings =
  unit :: unit_of_length
  widthMm :: real
  heightMm :: real
  hppi :: real
  vppi :: real
  lpi :: real
  marginTopMm :: real
  marginBottomMm :: real
  marginLeftMm :: real
  marginRightMm :: real
  alignmentPos :: alignment
  direction :: direction

record frame =
  frame_id :: string
  frame_src :: string
  frame_name :: string
  frame_width :: real
  frame_height :: real
  xOffset :: real
  yOffset :: real


record physicsSettings =
  radiusMicrons :: real
  thicknessMicrons :: real
  refractiveIndex :: real
  viewingDistanceMm :: real

text \<open>An \<^verbatim>\<open>HTMLImageElement\<close>: the source it was decoded from and its dimensions.\<close>

record htmlImage =
  image_src :: string
  image_width :: nat
  image_height :: nat

text \<open>
  The functions draw through the 2D context. Their result is modelled as the sequence of
  the drawing calls they make, with the arguments they pass; the canvas bitmap is a
  function of that sequence. A \<^verbatim>\<open>save\<close>, \<^verbatim>\<open>rect\<close>, \<^verbatim>\<open>clip\<close>, \<^verbatim>\<open>drawImage\<close>,
  \<^verbatim>\<open>restore\<close> group is one \<open>ClipDrawImage\<close>: the clip rectangle, the image and its
  destination rectangle. Text is kept as the values it is formatted from.
\<close>

datatype segment = MoveTo real real | LineTo real real

datatype text_content =
    InvalidPhysics
  | LpiLabel real
  | ChartCaption real real real

datatype command =
    ClearRect real real real real
  | FillRect string real real real real
  | FillRects string "(real \<times> real \<times> real \<times> real) list"
  | ClipDrawImage real real real real htmlImage real real real real
  | StrokePath string real "segment list"
  | FillText string string text_content real real
  | DrawImage htmlImage real real real real real real real real real
  | PixelEffects nat nat
  | Vignette real real

record canvas_output =
  out_width :: int
  out_height :: int
  out_commands :: "command list"

section \<open>Interlacer: \<^verbatim>\<open>generateLenticularImage\<close> (src/lenticular-engine.ts)\<close>

text \<open>
  A frame's image comes from \<^verbatim>\<open>cachedImages\<close> by the frame's id, or is decoded from the
  frame's \<^verbatim>\<open>src\<close>; \<open>decode\<close> is \<open>None\<close> where the image's \<^verbatim>\<open>onerror\<close> fires.
  \<^verbatim>\<open>Promise.all\<close> rejects when one of the frames does.
\<close>

definition loadImage ::
  "(string \<rightharpoonup> htmlImage) \<Rightarrow> (string \<rightharpoonup> htmlImage) \<Rightarrow> frame \<Rightarrow> error + (htmlImage \<times> frame)" where
  "loadImage cachedImages decode f =
     (case cachedImages (frame_id f) of
        Some cached \<Rightarrow> Inr (cached, f)
      | None \<Rightarrow>
         (case decode (frame_src f) of
            Some i \<Rightarrow> Inr (i, f)
          | None \<Rightarrow> Inl ImageLoadError))"

fun loadAll ::
  "(string \<rightharpoonup> htmlImage) \<Rightarrow> (string \<rightharpoonup> htmlImage) \<Rightarrow> frame list
     \<Rightarrow> error + (htmlImage \<times> frame) list" where
  "loadAll cachedImages decode [] = Inr []"
| "loadAll cachedImages decode (f # fs) =
     (case loadImage cachedImages decode f of
        Inl e \<Rightarrow> Inl e
      | Inr x \<Rightarrow>
         (case loadAll cachedImages decode fs of
            Inl e \<Rightarrow> Inl e
          | Inr xs \<Rightarrow> Inr (x # xs)))"

text \<open>The values the loops read, computed before them.\<close>

record strip_geometry =
  pPx :: real
  stripPx :: real
  contentWidthPx :: int
  contentHeightPx :: int
  drawOffsetX :: int
  drawOffsetY :: int

text \<open>The inner loop \<^verbatim>\<open>for (let f = 0; f < seqData.length; f++)\<close> at lens offset \<open>lensX\<close>.\<close>

fun frame_loop :: "strip_geometry \<Rightarrow> real \<Rightarrow> nat \<Rightarrow> (htmlImage \<times> frame) list \<Rightarrow> command list" where
  "frame_loop g lensX f [] = []"
| "frame_loop g lensX f ((img, frame) # rest) =
     (let destX = real_of_int (drawOffsetX g) + lensX + (real f * stripPx g);
          destY = real_of_int (drawOffsetY g);
          destW = stripPx g;
          destH = real_of_int (contentHeightPx g);
          xPos = real_of_int (drawOffsetX g) + xOffset frame;
          yPos = real_of_int (drawOffsetY g) + yOffset frame
      in ClipDrawImage destX destY destW destH img xPos yPos
           (real_of_int (contentWidthPx g)) (real_of_int (contentHeightPx g))
         # frame_loop g lensX (f + 1) rest)"

text \<open>
  The outer loop \<^verbatim>\<open>for (let l = 0; l < numLenses; l++)\<close> with its \<^verbatim>\<open>break\<close>.
\<close>

function lens_loop ::
  "strip_geometry \<Rightarrow> int \<Rightarrow> (htmlImage \<times> frame) list \<Rightarrow> nat \<Rightarrow> command list" where
  "lens_loop g numLenses seqData l =
     (if int l < numLenses
      then (let lensX = real l * pPx g
            in if lensX \<ge> real_of_int (contentWidthPx g) then []
               else frame_loop g lensX 0 seqData @ lens_loop g numLenses seqData (l + 1))
      else [])"
  by pat_completeness auto
termination
  by (relation "measure (\<lambda>(g, numLenses, seqData, l). nat (numLenses - int l))") auto

declare lens_loop.simps [simp del]

text \<open>The local function \<^verbatim>\<open>drawPattern\<close>; its parameter \<^verbatim>\<open>invert\<close> is not read.\<close>

definition drawPattern :: "real \<Rightarrow> real \<Rightarrow> real \<Rightarrow> real \<Rightarrow> command list" where
  "drawPattern p centerX yStart height =
     (let w = p * 4;
          h = height
      in [FillRect ''#eeeeee'' (centerX - w / 2) yStart w h,
          StrokePath ''#000000'' 1
            ([MoveTo centerX yStart, LineTo centerX (yStart + h)]
             @ concat (map (\<lambda>i. [MoveTo (centerX - (i * p)) yStart, LineTo (centerX - (i * p)) (yStart + h),
                                  MoveTo (centerX + (i * p)) yStart, LineTo (centerX + (i * p)) (yStart + h)])
                 [1, 2]))])"

text \<open>
  \<^verbatim>\<open>Math.ceil\<close> is \<^const>\<open>ceiling\<close>, taken of the exact value of its argument. The
  code takes it of the double that its arithmetic has computed, and where the exact
  value is a whole number that double can lie just above it: \<^verbatim>\<open>(152.4 / 25.4) * 600\<close>
  is 3600.0000000000005 and its ceiling 3601, \<^verbatim>\<open>61 / (61 / 7)\<close> is 7.000000000000001
  and its ceiling 8. The sizes in whole pixels and the number of lenses computed here can
  therefore differ by one from those of the code; what is proved of the strips further
  down holds for every content box and every number of lenses. For \<open>lpi = 0\<close> the
  pitch in pixels
  \<^verbatim>\<open>hppi / lpi\<close> is an infinity or NaN: \<^verbatim>\<open>numLenses\<close> is 0 or NaN and no lens is drawn,
  and of the alignment patterns only the centre line of a pattern at the centre of the
  content has finite coordinates. The canvas ignores a \<^verbatim>\<open>fillRect\<close>, \<^verbatim>\<open>moveTo\<close> or
  \<^verbatim>\<open>lineTo\<close> with an argument that is not finite; such calls are left out. With
  \<open>pPx = 0\<close>, that is \<open>hppi = 0\<close>, the content width is 0 and \<^verbatim>\<open>numLenses\<close> is NaN:
  the loop does not run. \<^verbatim>\<open>stripPx\<close> is read only in the loop over the frames.
\<close>

definition generateLenticularImage ::
  "frame list \<Rightarrow> jobSettings \<Rightarrow> bool \<Rightarrow> (string \<rightharpoonup> htmlImage) \<Rightarrow> (string \<rightharpoonup> htmlImage)
     \<Rightarrow> error + canvas_output" where
  "generateLenticularImage frames settings ctx cachedImages decode =
     (if \<not> ctx then Inl NoCanvasContext
      else
        let contentWidthPx = \<lceil>(widthMm settings / 25.4) * hppi settings\<rceil>;
            contentHeightPx = \<lceil>(heightMm settings / 25.4) * vppi settings\<rceil>;
            marginTopPx = \<lceil>(marginTopMm settings / 25.4) * vppi settings\<rceil>;
            marginBottomPx = \<lceil>(marginBottomMm settings / 25.4) * vppi settings\<rceil>;
            marginLeftPx = \<lceil>(marginLeftMm settings / 25.4) * hppi settings\<rceil>;
            marginRightPx = \<lceil>(marginRightMm settings / 25.4) * hppi settings\<rceil>;
            totalWidthPx = contentWidthPx + marginLeftPx + marginRightPx;
            totalHeightPx = contentHeightPx + marginTopPx + marginBottomPx;
            background = FillRect ''#ffffff'' 0 0 (real_of_int totalWidthPx) (real_of_int totalHeightPx)
        in
        ebind (loadAll cachedImages decode frames) (\<lambda>imgElements.
        let seqData = (if direction settings = RL then rev imgElements else imgElements);
            pPx = hppi settings / lpi settings;
            stripPx = pPx / real (length frames);
            numLenses = (if lpi settings = 0 \<or> pPx = 0 then 0
                         else \<lceil>real_of_int contentWidthPx / pPx\<rceil>);
            drawOffsetX = marginLeftPx;
            drawOffsetY = marginTopPx;
            g = \<lparr>pPx = pPx, stripPx = stripPx, contentWidthPx = contentWidthPx,
                 contentHeightPx = contentHeightPx, drawOffsetX = drawOffsetX,
                 drawOffsetY = drawOffsetY\<rparr>;
            strips = lens_loop g numLenses seqData 0;
            marks =
              (if marginTopPx > 0 \<or> marginBottomPx > 0
               then
                 (let centerContentX = real_of_int drawOffsetX + (real_of_int contentWidthPx / 2);
                      centre = (\<lambda>y height.
                        if lpi settings = 0
                        then [StrokePath ''#000000'' 1
                                [MoveTo centerContentX y, LineTo centerContentX (y + height)]]
                        else drawPattern pPx centerContentX y height);
                      sides = (\<lambda>y height.
                        if alignmentPos settings \<noteq> Internal
                        then (if lpi settings = 0
                              then [StrokePath ''#000000'' 1 [], StrokePath ''#000000'' 1 []]
                              else drawPattern pPx (real_of_int drawOffsetX + pPx * 2) y height
                                 @ drawPattern pPx
                                     (real_of_int drawOffsetX + real_of_int contentWidthPx - pPx * 2)
                                     y height)
                        else []);
                      top =
                        (if marginTopPx > 0
                         then centre 0 (real_of_int marginTopPx) @ sides 0 (real_of_int marginTopPx)
                         else []);
                      bottom =
                        (if marginBottomPx > 0
                         then (let y = real_of_int (totalHeightPx - marginBottomPx)
                               in centre y (real_of_int marginBottomPx)
                                  @ sides y (real_of_int marginBottomPx))
                         else []);
                      bracketLen = 20;
                      x0 = real_of_int drawOffsetX;
                      y0 = real_of_int drawOffsetY;
                      x1 = real_of_int drawOffsetX + real_of_int contentWidthPx;
                      y1 = real_of_int drawOffsetY + real_of_int contentHeightPx;
                      crop =
                        [StrokePath ''#000000'' 0.5
                           [MoveTo x0 (y0 - bracketLen), LineTo x0 y0, LineTo (x0 - bracketLen) y0],
                         StrokePath ''#000000'' 0.5
                           [MoveTo x1 (y0 - bracketLen), LineTo x1 y0, LineTo (x1 + bracketLen) y0],
                         StrokePath ''#000000'' 0.5
                           [MoveTo x0 (y1 + bracketLen), LineTo x0 y1, LineTo (x0 - bracketLen) y1],
                         StrokePath ''#000000'' 0.5
                           [MoveTo x1 (y1 + bracketLen), LineTo x1 y1, LineTo (x1 + bracketLen) y1]]
                  in top @ bottom @ crop)
               else [])
        in Inr \<lparr>out_width = totalWidthPx, out_height = totalHeightPx,
                 out_commands = background # strips @ marks\<rparr>))"

subsection \<open>The strips of the specification\<close>

text \<open>
  Section 4.3 in its words: pixel sizes are physical size times PPI, rounded up; the
  pixels per pitch are \<open>hppi / lpi\<close>, the strip of a frame is that divided by the frame
  count, not rounded; under lens \<open>l\<close> the strip of the frame at position \<open>f\<close> of the
  sequence starts at \<open>l\<close> pitches plus \<open>f\<close> strip widths from the left edge of the
  content, and is as high as the content; the frame's image is scaled to the content box
  and moved by the frame's offset. \<open>spec_lens_count\<close> is the number of lenses that start
  inside the content.
\<close>

definition px :: "real \<Rightarrow> real \<Rightarrow> int" where
  "px mm ppi = \<lceil>(mm / 25.4) * ppi\<rceil>"

definition spec_pitch_px :: "jobSettings \<Rightarrow> real" where
  "spec_pitch_px s = hppi s / lpi s"

definition spec_strip_width :: "jobSettings \<Rightarrow> nat \<Rightarrow> real" where
  "spec_strip_width s n = spec_pitch_px s / real n"

definition spec_strip_start :: "jobSettings \<Rightarrow> nat \<Rightarrow> nat \<Rightarrow> nat \<Rightarrow> real" where
  "spec_strip_start s n l f = real l * spec_pitch_px s + real f * spec_strip_width s n"

definition spec_strip :: "jobSettings \<Rightarrow> nat \<Rightarrow> nat \<Rightarrow> nat \<times> htmlImage \<times> frame \<Rightarrow> command" where
  "spec_strip s n l x =
     (case x of (f, img, fr) \<Rightarrow>
        ClipDrawImage
          (real_of_int (px (marginLeftMm s) (hppi s)) + spec_strip_start s n l f)
          (real_of_int (px (marginTopMm s) (vppi s)))
          (spec_strip_width s n)
          (real_of_int (px (heightMm s) (vppi s)))
          img
          (real_of_int (px (marginLeftMm s) (hppi s)) + xOffset fr)
          (real_of_int (px (marginTopMm s) (vppi s)) + yOffset fr)
          (real_of_int (px (widthMm s) (hppi s)))
          (real_of_int (px (heightMm s) (vppi s))))"

definition spec_lens_count :: "jobSettings \<Rightarrow> nat" where
  "spec_lens_count s =
     (if 0 < spec_pitch_px s then nat \<lceil>real_of_int (px (widthMm s) (hppi s)) / spec_pitch_px s\<rceil> else 0)"

definition spec_strips :: "jobSettings \<Rightarrow> (htmlImage \<times> frame) list \<Rightarrow> command list" where
  "spec_strips s seqData =
     concat (map (\<lambda>l. map (spec_strip s (length seqData) l) (enumerate 0 seqData))
                 [0..<spec_lens_count s])"

fun is_strip :: "command \<Rightarrow> bool" where
  "is_strip (ClipDrawImage cx cy cw ch img dx dy dw dh) = True"
| "is_strip _ = False"

subsection \<open>The strips in a content box\<close>

text \<open>
  What the specification says of a strip does not depend on the sizes in whole pixels:
  given the box of the content on the canvas (its left and top edge, the margins, and
  its width and height), the strip of the frame at position \<open>f\<close> under lens \<open>l\<close> is
  \<open>(hppi / lpi) / frameCount\<close> wide and starts \<open>l (hppi / lpi) + f stripWidth\<close> right of
  the left edge of the box; the image is scaled to the box and moved by the frame's
  offset. \<open>strips_in\<close> are the strips of the first \<open>K\<close> lenses, in the order of the
  loops.
\<close>

record content_box =
  box_left :: int
  box_top :: int
  box_width :: int
  box_height :: int

definition strip_in ::
  "content_box \<Rightarrow> jobSettings \<Rightarrow> nat \<Rightarrow> nat \<Rightarrow> nat \<times> htmlImage \<times> frame \<Rightarrow> command" where
  "strip_in b s n l x =
     (case x of (f, img, fr) \<Rightarrow>
        ClipDrawImage
          (real_of_int (box_left b) + spec_strip_start s n l f)
          (real_of_int (box_top b))
          (spec_strip_width s n)
          (real_of_int (box_height b))
          img
          (real_of_int (box_left b) + xOffset fr)
          (real_of_int (box_top b) + yOffset fr)
          (real_of_int (box_width b))
          (real_of_int (box_height b)))"

definition strips_in ::
  "content_box \<Rightarrow> jobSettings \<Rightarrow> (htmlImage \<times> frame) list \<Rightarrow> nat \<Rightarrow> command list" where
  "strips_in b s seqData K =
     concat (map (\<lambda>l. map (strip_in b s (length seqData) l) (enumerate 0 seqData)) [0..<K])"

subsection \<open>Which strip paints a point\<close>






subsection \<open>A job of 60 LPI at 600 PPI\<close>

definition job_60lpi :: jobSettings where
  "job_60lpi = \<lparr>unit = Mm, widthMm = 25.4, heightMm = 25.4, hppi = 600, vppi = 600, lpi = 60,
     marginTopMm = 0, marginBottomMm = 0, marginLeftMm = 0, marginRightMm = 0,
     alignmentPos = External, direction = LR\<rparr>"

definition frame_A :: frame where
  "frame_A = \<lparr>frame_id = ''A'', frame_src = ''a.png'', frame_name = ''A'',
     frame_width = 600, frame_height = 600, xOffset = 0, yOffset = 0\<rparr>"

definition frame_B :: frame where
  "frame_B = \<lparr>frame_id = ''B'', frame_src = ''b.png'', frame_name = ''B'',
     frame_width = 600, frame_height = 600, xOffset = 0, yOffset = 0\<rparr>"

definition frame_C :: frame where
  "frame_C = \<lparr>frame_id = ''C'', frame_src = ''c.png'', frame_name = ''C'',
     frame_width = 600, frame_height = 600, xOffset = 3, yOffset = - 2\<rparr>"

definition image_of :: "frame \<Rightarrow> htmlImage" where
  "image_of f = \<lparr>image_src = frame_src f, image_width = 600, image_height = 600\<rparr>"

definition decode_ABC :: "string \<rightharpoonup> htmlImage" where
  "decode_ABC = [''a.png'' \<mapsto> image_of frame_A, ''b.png'' \<mapsto> image_of frame_B,
                 ''c.png'' \<mapsto> image_of frame_C]"

section \<open>Interlacer: \<^verbatim>\<open>generateCalibrationChart\<close> (src/lenticular-engine.ts)\<close>






subsection \<open>The bands of the specification\<close>







fun text_of :: "command \<Rightarrow> text_content list" where
  "text_of (FillText font style txt x y) = [txt]"
| "text_of _ = []"

definition texts :: "command list \<Rightarrow> text_content list" where
  "texts cmds = concat (map text_of cmds)"



section \<open>ParallaxRenderer: \<^verbatim>\<open>renderSimulationFrame\<close> (src/physics.ts)\<close>

text \<open>\<^verbatim>\<open>Math.atan2(y, x)\<close> on the reals.\<close>

definition atan2 :: "real \<Rightarrow> real \<Rightarrow> real" where
  "atan2 y x =
     (if 0 < x then arctan (y / x)
      else if x < 0 then (if 0 \<le> y then arctan (y / x) + pi else arctan (y / x) - pi)
      else if 0 < y then pi / 2
      else if y < 0 then - (pi / 2)
      else 0)"

text \<open>
  The fraction \<^verbatim>\<open>t\<close> of a column \<open>x\<close>, after the wrap into \<open>[0, 1)\<close>: from \<^verbatim>\<open>u\<close> to
  \<^verbatim>\<open>t = t - Math.floor(t)\<close> of the loop body.
\<close>

definition column_t :: "jobSettings \<Rightarrow> physicsSettings \<Rightarrow> real \<Rightarrow> real \<Rightarrow> real \<Rightarrow> nat \<Rightarrow> real" where
  "column_t jobSettings physicsSettings fovRad simX drawW x =
     (let moveRangeMm = 600;
          eyePhysX = (simX - 0.5) * moveRangeMm;
          dist = viewingDistanceMm physicsSettings;
          u = real x / drawW;
          physPointX = (u - 0.5) * widthMm jobSettings;
          vecX = physPointX - eyePhysX;
          vecY = - dist;
          angle = atan2 vecX \<bar>vecY\<bar>;
          t = (angle / fovRad) + 0.5;
          t = (if direction jobSettings = RL then 1.0 - t else t)
      in t - real_of_int \<lfloor>t\<rfloor>)"

text \<open>
  \<^verbatim>\<open>idx\<close>, \<^verbatim>\<open>nextIdx\<close> and \<^verbatim>\<open>mix\<close> of the loop body, from \<^verbatim>\<open>t\<close> and the number of
  frames.
\<close>

definition frame_indices :: "real \<Rightarrow> nat \<Rightarrow> int \<times> int \<times> real" where
  "frame_indices t numFrames =
     (let frameFloat = t * (real numFrames - 1);
          idx = \<lfloor>frameFloat\<rfloor>;
          nextIdx = min (idx + 1) (int numFrames - 1);
          mix = frameFloat - real_of_int idx
      in (idx, nextIdx, mix))"

text \<open>
  A \<^verbatim>\<open>drawImage\<close> of the loop. \<^verbatim>\<open>drawH\<close> and \<^verbatim>\<open>offY\<close> are \<open>None\<close> where they are NaN
  (see below); \<^verbatim>\<open>drawImage\<close> returns without drawing when an argument is NaN.
\<close>

definition draw_slice ::
  "htmlImage \<Rightarrow> real \<Rightarrow> real \<Rightarrow> real \<Rightarrow> real option \<Rightarrow> real option \<Rightarrow> real \<Rightarrow> command list" where
  "draw_slice img sx sw dx offY drawH alpha =
     (case (offY, drawH) of
        (Some dy, Some dh) \<Rightarrow> [DrawImage img sx 0 sw (real (image_height img)) dx dy 2 dh alpha]
      | _ \<Rightarrow> [])"

text \<open>
  The loop \<^verbatim>\<open>for (let x = 0; x < drawW; x += step)\<close> with \<^verbatim>\<open>step = 2\<close>. An index
  outside \<^verbatim>\<open>images\<close> gives \<^verbatim>\<open>undefined\<close>, and reading its \<^verbatim>\<open>width\<close> or \<^verbatim>\<open>height\<close>
  throws.
\<close>

function column_loop ::
  "htmlImage list \<Rightarrow> jobSettings \<Rightarrow> physicsSettings \<Rightarrow> real \<Rightarrow> real \<Rightarrow> real \<Rightarrow> real option
     \<Rightarrow> int \<Rightarrow> real option \<Rightarrow> nat \<Rightarrow> error + command list" where
  "column_loop images jobSettings physicsSettings fovRad simX drawW drawH offX offY x =
     (if real x < drawW
      then
        (let numFrames = length images;
             t = column_t jobSettings physicsSettings fovRad simX drawW x
         in case frame_indices t numFrames of (idx, nextIdx, mix) \<Rightarrow>
            if idx < 0 \<or> int numFrames \<le> idx then Inl TypeError
            else
              let img = images ! nat idx;
                  sx = (real x / drawW) * real (image_width img);
                  sw = (2 / drawW) * real (image_width img);
                  first = draw_slice img sx sw (real_of_int offX + real x) offY drawH 1
              in
              ebind (if mix > 0.05
                     then (if nextIdx < 0 \<or> int numFrames \<le> nextIdx then Inl TypeError
                           else Inr (draw_slice (images ! nat nextIdx) sx sw
                                       (real_of_int offX + real x) offY drawH mix))
                     else Inr []) (\<lambda>blend.
              ebind (column_loop images jobSettings physicsSettings fovRad simX drawW drawH
                       offX offY (x + 2)) (\<lambda>rest.
              Inr (first @ blend @ rest))))
      else Inr [])"
  by pat_completeness auto
termination
proof (relation "measure (\<lambda>(images, jobSettings, physicsSettings, fovRad, simX, drawW, drawH, offX, offY, x).
        nat \<lceil>drawW\<rceil> - x)")
  show "wf (measure (\<lambda>(images, jobSettings, physicsSettings, fovRad, simX, drawW, drawH, offX, offY, x).
        nat \<lceil>drawW\<rceil> - x))"
    by simp
next
  fix images :: "htmlImage list" and jobSettings :: jobSettings
    and physicsSettings :: physicsSettings and fovRad simX drawW :: real
    and drawH offY :: "real option" and offX :: int and x :: nat
  assume "real x < drawW"
  then have "real x < real_of_int \<lceil>drawW\<rceil>" by linarith
  then have "x < nat \<lceil>drawW\<rceil>" by linarith
  then show "((images, jobSettings, physicsSettings, fovRad, simX, drawW, drawH, offX, offY, x + 2),
              (images, jobSettings, physicsSettings, fovRad, simX, drawW, drawH, offX, offY, x))
      \<in> measure (\<lambda>(images, jobSettings, physicsSettings, fovRad, simX, drawW, drawH, offX, offY, x).
            nat \<lceil>drawW\<rceil> - x)"
    by simp
qed

declare column_loop.simps [simp del]

text \<open>
  The box the first image is drawn into. \<^verbatim>\<open>aspect\<close> is the quotient of the dimensions
  of \<^verbatim>\<open>images[0]\<close>; where one of them is 0 it is 0, an infinity or NaN, and the values
  the source has then are written out: a width of 0 gives \<^verbatim>\<open>drawW = 0\<close> (the loop does
  not run; on a canvas of width 0 \<^verbatim>\<open>drawH\<close> is NaN); a height of 0 gives \<^verbatim>\<open>drawW = width\<close>, with \<^verbatim>\<open>drawH = 0\<close> for a positive
  width of the image and \<^verbatim>\<open>drawH = NaN\<close> for the width 0. The result is
  \<open>(drawW, drawH, offX, offY)\<close>.
\<close>

definition draw_box :: "nat \<Rightarrow> nat \<Rightarrow> htmlImage \<Rightarrow> real \<times> real option \<times> int \<times> real option" where
  "draw_box width height image0 =
     (let iw = image_width image0;
          ih = image_height image0
      in if ih = 0
         then (if iw = 0 then (real width, None, 0, None)
               else (real width, Some 0, 0, Some (real_of_int \<lfloor>(real height - 0) / 2\<rfloor>)))
         else if iw = 0
         then (if width = 0 then (0, None, 0, None)
               else (0, Some (real height), \<lfloor>(real width - 0) / 2\<rfloor>, Some 0))
         else
           (let aspect = real iw / real ih;
                drawW = real width;
                drawH = real width / aspect
            in if drawH > real height
               then (let drawH = real height;
                         drawW = real height * aspect
                     in (drawW, Some drawH, \<lfloor>(real width - drawW) / 2\<rfloor>,
                         Some (real_of_int \<lfloor>(real height - drawH) / 2\<rfloor>)))
               else (drawW, Some drawH, \<lfloor>(real width - drawW) / 2\<rfloor>,
                     Some (real_of_int \<lfloor>(real height - drawH) / 2\<rfloor>))))"

text \<open>
  The pass over the pixels (scanline darkening and the shift of the red and blue
  channels) is the call \<open>PixelEffects\<close>; it starts with \<^verbatim>\<open>getImageData\<close>, which raises
  IndexSizeError for an empty rectangle. The gradient fill in the mode \<^verbatim>\<open>multiply\<close> is
  the call \<open>Vignette\<close>.
\<close>

definition renderSimulationFrame ::
  "nat \<Rightarrow> nat \<Rightarrow> htmlImage list \<Rightarrow> jobSettings \<Rightarrow> physicsSettings \<Rightarrow> real \<Rightarrow> error + command list" where
  "renderSimulationFrame width height images jobSettings physicsSettings simX =
     (let fovDegrees = calculateFOV (lpi jobSettings) (radiusMicrons physicsSettings)
                         (thicknessMicrons physicsSettings) (refractiveIndex physicsSettings);
          clear = [ClearRect 0 0 (real width) (real height),
                   FillRect ''#000'' 0 0 (real width) (real height)]
      in if length images = 0 then Inr clear
         else if fovDegrees \<le> 0
         then Inr (clear @ [FillText ''bold 14px monospace'' ''#ff4444'' InvalidPhysics
                             (real width / 2) (real height / 2)])
         else
           case draw_box width height (images ! 0) of (drawW, drawH, offX, offY) \<Rightarrow>
           let fovRad = fovDegrees * pi / 180 in
           ebind (column_loop images jobSettings physicsSettings fovRad simX drawW drawH offX offY 0)
             (\<lambda>columns.
           ebind (if width * height < 2000000
                  then (if width = 0 \<or> height = 0 then Inl IndexSizeError
                        else Inr [PixelEffects width height])
                  else Inr []) (\<lambda>effects.
           Inr (clear @ columns @ effects @ [Vignette (real width) (real height)]))))"

subsection \<open>Frame draws, and two lenses\<close>

text \<open>
  \<open>is_draw\<close> holds of the calls that draw a slice of a frame. The lens \<open>lens_wide\<close> has
  a positive field of view at 127 LPI, the lens \<open>lens_thin\<close> is thinner than its sagitta.
\<close>

fun is_draw :: "command \<Rightarrow> bool" where
  "is_draw (DrawImage img sx sy sw sh dx dy dw dh alpha) = True"
| "is_draw _ = False"

definition job_127 :: jobSettings where
  "job_127 = job_60lpi\<lparr>lpi := 127\<rparr>"

definition lens_wide :: physicsSettings where
  "lens_wide = \<lparr>radiusMicrons = 125, thicknessMicrons = 95, refractiveIndex = 3 / 2,
     viewingDistanceMm = 500\<rparr>"

definition lens_thin :: physicsSettings where
  "lens_thin = \<lparr>radiusMicrons = 100, thicknessMicrons = 50, refractiveIndex = 3 / 2,
     viewingDistanceMm = 500\<rparr>"

section \<open>GeometryModel: properties of \<^verbatim>\<open>calculateFOV\<close>\<close>

lemma calculateFOV_eq_spec:
  "(lp \<noteq> 0 \<longrightarrow> calculateFOV lp r e n = spec_FOV lp r e n) \<and> calculateFOV 0 r e n = 0"
  by (simp add: calculateFOV_def spec_FOV_def spec_sinI_def spec_h_def spec_sagitta_def
      spec_half_angle_def spec_pitch_def n_air_def Let_def power2_eq_square)

lemma half_angle_pos:
  fixes p r :: real
  assumes "0 < r" "0 < p" "p \<le> 2 * r"
  shows "0 < arcsin (p / (2 * r))" "arcsin (p / (2 * r)) \<le> pi / 2"
proof -
  have b: "0 < p / (2 * r)" "p / (2 * r) \<le> 1" using assms by simp_all
  have "arcsin 0 < arcsin (p / (2 * r))"
    using b by (intro arcsin_less_arcsin) simp_all
  then show "0 < arcsin (p / (2 * r))" by simp
  show "arcsin (p / (2 * r)) \<le> pi / 2"
    using b by (intro arcsin_ubound) simp_all
qed

lemma calculateFOV_bounds:
  assumes "0 < lp" "0 < r"
  shows "- 180 < calculateFOV lp r e n \<and> calculateFOV lp r e n \<le> 360
     \<and> (25400 / lp > 2 * r \<longrightarrow> calculateFOV lp r e n = 0)"
proof -
  define p where "p = 25400 / lp"
  define A where "A = arcsin (p / (2 * r))"
  define h where "h = e - (r - sqrt (r * r - (p / 2) * (p / 2)))"
  define s where "s = n * sin (A - arctan (p / h)) / n_air"
  have ppos: "0 < p" using assms by (simp add: p_def)
  have unf: "calculateFOV lp r e n =
      (if p > 2 * r then 0 else if h \<le> 0 then 0 else if \<bar>s\<bar> > 1 then 0
       else 2 * (A - arcsin s) * 180 / pi)"
    unfolding s_def h_def A_def p_def calculateFOV_def Let_def
    using assms by simp
  show ?thesis
  proof (cases "p > 2 * r \<or> h \<le> 0 \<or> \<bar>s\<bar> > 1")
    case True
    then show ?thesis unfolding unf p_def [symmetric] by auto
  next
    case False
    then have le: "p \<le> 2 * r" and s1: "\<bar>s\<bar> \<le> 1" and hp: "0 < h" by auto
    have val: "calculateFOV lp r e n = 2 * (A - arcsin s) * 180 / pi"
      using False unfolding unf by auto
    have A: "0 < A" "A \<le> pi / 2"
      using half_angle_pos [OF assms(2) ppos le] by (simp_all add: A_def)
    have I: "- (pi / 2) \<le> arcsin s" "arcsin s \<le> pi / 2"
      using s1 arcsin_bounded [of s] by auto
    have lo: "- pi < 2 * (A - arcsin s)" using A I by simp
    have hi: "2 * (A - arcsin s) \<le> 2 * pi" using A I by simp
    have "- 180 < 2 * (A - arcsin s) * 180 / pi"
      using lo by (simp add: field_simps)
    moreover have "2 * (A - arcsin s) * 180 / pi \<le> 360"
      using hi by (simp add: field_simps)
    ultimately show ?thesis using le unfolding val p_def [symmetric] by simp
  qed
qed

lemma calculateFOV_regular:
  assumes p: "lp \<noteq> 0" "p = 25400 / lp" "0 < p" "p \<le> 2 * r"
    and h: "h = e - (r - sqrt (r * r - (p / 2) * (p / 2)))" "0 < h"
    and s: "s = n * sin (arcsin (p / (2 * r)) - arctan (p / h)) / n_air" "\<bar>s\<bar> \<le> 1"
  shows "calculateFOV lp r e n = 2 * (arcsin (p / (2 * r)) - arcsin s) * 180 / pi"
proof -
  have r: "0 < r" using p by linarith
  show ?thesis
    unfolding calculateFOV_def Let_def p(2) [symmetric] h(1) [symmetric] s(1) [symmetric]
    using p r h s by (simp add: not_le)
qed

lemma calculateFOV_thin_zero: "calculateFOV 127 100 50 (3/2) = 0"
  by (simp add: calculateFOV_def Let_def)

lemma calculateFOV_thick_negative: "calculateFOV 127 260 2015 (3/2) < 0"
proof -
  have sq2: "sqrt (1 + (40 / 399)\<^sup>2) = (401 / 399 :: real)"
    by (rule real_sqrt_unique) (simp_all add: power2_eq_square)
  have sq3: "sqrt (1 - (5 / 13)\<^sup>2) = (12 / 13 :: real)"
    by (rule real_sqrt_unique) (simp_all add: power2_eq_square)
  define A where "A = arcsin (5 / 13 :: real)"
  have sA: "sin A = 5 / 13" by (simp add: A_def)
  have cA: "cos A = 12 / 13" by (simp add: A_def cos_arcsin sq3)
  have sR: "sin (A - arctan (40 / 399)) = 1515 / 5213"
    by (simp add: sin_diff sA cA sin_arctan cos_arctan sq2)
  define s where "s = (22725000 / 52145639 :: real)"
  have h: "(1995::real) = 2015 - (260 - sqrt (260 * 260 - (200 / 2) * (200 / 2)))"
  proof -
    have "sqrt (260 * 260 - (200 / 2) * (200 / 2)) = (240::real)"
      by (rule real_sqrt_unique) simp_all
    then show ?thesis by simp
  qed
  have sv: "s = 3 / 2 * sin (arcsin (200 / (2 * 260)) - arctan (200 / 1995)) / n_air"
    using sR by (simp add: A_def s_def n_air_def)
  have s1: "\<bar>s\<bar> \<le> 1" by (simp add: s_def)
  have val: "calculateFOV 127 260 2015 (3/2) = 2 * (arcsin (200 / (2 * 260)) - arcsin s) * 180 / pi"
    by (rule calculateFOV_regular [where p = 200 and h = 1995, OF _ _ _ _ h _ sv s1]) simp_all
  have "A < arcsin s"
    unfolding A_def by (subst arcsin_less_mono) (simp_all add: s_def)
  then show ?thesis unfolding val using pi_gt_zero by (simp add: A_def field_simps)
qed

lemma calculateFOV_wide: "calculateFOV 127 125 95 (3/2) > 180"
proof -
  have sq2: "sqrt (1 + (40 / 9)\<^sup>2) = (41 / 9 :: real)"
    by (rule real_sqrt_unique) (simp_all add: power2_eq_square)
  have sq3: "sqrt (1 - (4 / 5)\<^sup>2) = (3 / 5 :: real)"
    by (rule real_sqrt_unique) (simp_all add: power2_eq_square)
  define A where "A = arcsin (4 / 5 :: real)"
  have sA: "sin A = 4 / 5" by (simp add: A_def)
  have cA: "cos A = 3 / 5" by (simp add: A_def cos_arcsin sq3)
  have sR: "sin (A - arctan (40 / 9)) = - (84 / 205)"
    by (simp add: sin_diff sA cA sin_arctan cos_arctan sq2)
  define s where "s = (1260000 / 2050615 :: real)"
  have h: "(45::real) = 95 - (125 - sqrt (125 * 125 - (200 / 2) * (200 / 2)))"
  proof -
    have "sqrt (125 * 125 - (200 / 2) * (200 / 2)) = (75::real)"
      by (rule real_sqrt_unique) simp_all
    then show ?thesis by simp
  qed
  have sv: "- s = 3 / 2 * sin (arcsin (200 / (2 * 125)) - arctan (200 / 45)) / n_air"
    using sR by (simp add: A_def s_def n_air_def)
  have s1: "\<bar>- s\<bar> \<le> 1" by (simp add: s_def)
  have val: "calculateFOV 127 125 95 (3/2) = 2 * (arcsin (200 / (2 * 125)) - arcsin (- s)) * 180 / pi"
    by (rule calculateFOV_regular [where p = 200 and h = 45, OF _ _ _ _ h _ sv s1]) simp_all
  have "pi / 2 - A = arccos (4 / 5)"
    by (simp add: A_def arccos_arcsin_eq)
  also have "\<dots> = arcsin (3 / 5)"
    by (simp add: arccos_arcsin_sqrt_pos sq3)
  also have "\<dots> < arcsin s"
    by (subst arcsin_less_mono) (simp_all add: s_def)
  finally have "pi / 2 < A + arcsin s" by simp
  moreover have "arcsin (- s) = - arcsin s"
    by (rule arcsin_minus) (simp_all add: s_def)
  ultimately show ?thesis unfolding val using pi_gt_zero by (simp add: A_def field_simps)
qed


lemma calculateFOV_example_pos: "0 < calculateFOV 127 125 95 (3/2)"
  using calculateFOV_wide by simp

text \<open>
  Claim C5. \<^verbatim>\<open>calculateFOV\<close> returns the sentinel 0 when the radius is not positive,
  the pitch \<open>25400 / lpi\<close> is not positive or exceeds the diameter, the derived
  thickness \<open>h\<close> is not positive, or the Snell term has absolute value above 1; otherwise
  it returns \<open>2 (asin (pitch / (2 r)) - asin sinI)\<close> in degrees. That is \<open>spec_FOV\<close>, the
  specification's wording of section 4.1. For \<open>lpi = 0\<close> the pitch is an infinity and
  the result is 0 as well.
\<close>

theorem calculateFOV_sentinel_cases:
  "(lp \<noteq> 0 \<longrightarrow> calculateFOV lp r e n = spec_FOV lp r e n) \<and> calculateFOV 0 r e n = 0"
  by (rule calculateFOV_eq_spec)

theorem calculateFOV_sentinel_cases_witness:
  "(127::real) \<noteq> 0 \<and> calculateFOV 127 100 50 (3/2) = spec_FOV 127 100 50 (3/2)
     \<and> spec_FOV 127 100 50 (3/2) = 0"
proof -
  have "spec_FOV 127 100 50 (3/2) = 0"
    by (simp add: spec_FOV_def spec_h_def spec_sagitta_def spec_pitch_def)
  then show ?thesis
    using calculateFOV_sentinel_cases [of 127 100 50 "3/2"] by simp
qed

text \<open>
  Claim C1, as the code has it. For \<open>lpi > 0\<close> and a positive radius the value of
  \<^verbatim>\<open>calculateFOV\<close> lies in the interval \<open>(-180, 360]\<close> degrees, and it is 0 whenever the
  pitch \<open>25400 / lpi\<close> exceeds twice the radius. The result is not clamped to
  \<open>[0, 180]\<close>, and 0 is returned for other degenerate inputs too.
\<close>

theorem calculateFOV_range:
  assumes "0 < lp" "0 < r"
  shows "- 180 < calculateFOV lp r e n \<and> calculateFOV lp r e n \<le> 360
     \<and> (25400 / lp > 2 * r \<longrightarrow> calculateFOV lp r e n = 0)"
  using assms by (rule calculateFOV_bounds)

theorem calculateFOV_range_witness:
  "(0::real) < 127 \<and> (0::real) < 50 \<and> 25400 / 127 > 2 * (50::real)
     \<and> - 180 < calculateFOV 127 50 95 (3/2) \<and> calculateFOV 127 50 95 (3/2) \<le> 360
     \<and> calculateFOV 127 50 95 (3/2) = 0"
  using calculateFOV_range [of 127 50 95 "3/2"] by simp

text \<open>
  Claim C1 as stated fails: the lens \<open>(127, 100, 50, 1.5)\<close> has pitch 200, which does
  not exceed the diameter 200, and the result is 0 (the lens is thinner than its
  sagitta); the lens \<open>(127, 260, 2015, 1.5)\<close> has a negative result; the lens
  \<open>(127, 125, 95, 1.5)\<close> has a result above 180.
\<close>

theorem calculateFOV_range_counterexample:
  "calculateFOV 127 100 50 (3/2) = 0 \<and> \<not> (25400 / 127 > 2 * (100::real))
     \<and> calculateFOV 127 260 2015 (3/2) < 0
     \<and> calculateFOV 127 125 95 (3/2) > 180"
  using calculateFOV_thin_zero calculateFOV_thick_negative calculateFOV_wide by simp

section \<open>TiffEncoder: the bytes written\<close>

lemma length_le16 [simp]: "length (le16 v) = 2" by (simp add: le16_def)

lemma length_le32 [simp]: "length (le32 v) = 4" by (simp add: le32_def)

lemma update_fresh:
  "length done = off \<Longrightarrow> (done @ x # xs)[off := v] = done @ v # xs"
  by (simp add: list_update_append)

lemma setUint16_fresh:
  assumes "length done = off" "2 \<le> m"
  shows "setUint16 off v (done @ replicate m 0) = Inr ((done @ le16 v) @ replicate (m - 2) 0)"
proof -
  obtain k where m: "m = Suc (Suc k)"
    using assms(2) by (cases m; cases "m - 1") auto
  have "(done @ 0 # 0 # replicate k 0)[off := a, off + 1 := b] = done @ a # b # replicate k (0::byte)" for a b
    using assms(1) update_fresh [of "done @ [a]" "off + 1" 0 "replicate k 0" b] 
    by (simp add: update_fresh)
  then show ?thesis using assms(1)
    by (simp add: setUint16_def le16_def m)
qed

lemma setUint32_fresh:
  assumes "length done = off" "4 \<le> m"
  shows "setUint32 off v (done @ replicate m 0) = Inr ((done @ le32 v) @ replicate (m - 4) 0)"
proof -
  obtain k where m: "m = Suc (Suc (Suc (Suc k)))"
    using assms(2) by (cases m; cases "m - 1"; cases "m - 2"; cases "m - 3") auto
  have "(done @ 0 # 0 # 0 # 0 # replicate k 0)[off := a, off + 1 := b, off + 2 := c, off + 3 := d]
      = done @ a # b # c # d # replicate k (0::byte)" for a b c d
  proof -
    have 1: "(done @ 0 # 0 # 0 # 0 # replicate k 0)[off := a] = done @ a # 0 # 0 # 0 # replicate k 0"
      using assms(1) by (rule update_fresh)
    have 2: "(done @ a # 0 # 0 # 0 # replicate k 0)[off + 1 := b] = done @ a # b # 0 # 0 # replicate k 0"
      using update_fresh [of "done @ [a]" "off + 1"] assms(1) by simp
    have 3: "(done @ a # b # 0 # 0 # replicate k 0)[off + 2 := c] = done @ a # b # c # 0 # replicate k 0"
      using update_fresh [of "done @ [a, b]" "off + 2"] assms(1) by simp
    have 4: "(done @ a # b # c # 0 # replicate k 0)[off + 3 := d] = done @ a # b # c # d # replicate k 0"
      using update_fresh [of "done @ [a, b, c]" "off + 3"] assms(1) by simp
    show ?thesis by (simp only: 1 2 3 4)
  qed
  then show ?thesis using assms(1)
    by (simp add: setUint32_def le32_def m)
qed

lemma writeTag_fresh:
  assumes "length done = off" "12 \<le> m"
  shows "writeTag tag ty cnt v (done @ replicate m 0, off)
       = Inr ((done @ le16 tag @ le16 ty @ le32 cnt @ le32 v) @ replicate (m - 12) 0, off + 12)"
proof -
  have 1: "setUint16 off tag (done @ replicate m 0) = Inr ((done @ le16 tag) @ replicate (m - 2) 0)"
    using assms by (intro setUint16_fresh) simp_all
  have 2: "setUint16 (off + 2) ty ((done @ le16 tag) @ replicate (m - 2) 0)
         = Inr (((done @ le16 tag) @ le16 ty) @ replicate (m - 2 - 2) 0)"
    using assms by (intro setUint16_fresh) simp_all
  have 3: "setUint32 (off + 4) cnt (((done @ le16 tag) @ le16 ty) @ replicate (m - 2 - 2) 0)
         = Inr ((((done @ le16 tag) @ le16 ty) @ le32 cnt) @ replicate (m - 2 - 2 - 4) 0)"
    using assms by (intro setUint32_fresh) simp_all
  have 4: "setUint32 (off + 8) v ((((done @ le16 tag) @ le16 ty) @ le32 cnt) @ replicate (m - 2 - 2 - 4) 0)
         = Inr (((((done @ le16 tag) @ le16 ty) @ le32 cnt) @ le32 v) @ replicate (m - 2 - 2 - 4 - 4) 0)"
    using assms by (intro setUint32_fresh) simp_all
  have m: "m - 2 - 2 - 4 - 4 = m - 12" by simp
  show ?thesis
    unfolding writeTag_def prod.case ebind_def 1 2 3 4 sum.case m by simp
qed

lemma drop_alpha_append:
  "length xs mod 4 = 0 \<Longrightarrow> drop_alpha (xs @ ys) = drop_alpha xs @ drop_alpha ys"
proof (induction xs rule: drop_alpha.induct)
  case (1 r g b a rest)
  have "length (r # g # b # a # rest) = length rest + 4" by simp
  with "1.prems" have "(length rest + 4) mod 4 = 0" by (simp only:)
  then have "length rest mod 4 = 0" by simp
  with "1.IH" show ?case by simp
qed auto

lemma length_drop_alpha: "length d = 4 * n \<Longrightarrow> length (drop_alpha d) = 3 * n"
proof (induction d arbitrary: n rule: drop_alpha.induct)
  case (1 r g b a rest)
  then obtain n' where "n = Suc n'" by (cases n) auto
  with 1 show ?case by simp
qed auto

lemma take4_drop:
  assumes "i + 4 \<le> length d"
  shows "take 4 (drop i d) = [d ! i, d ! (i + 1), d ! (i + 2), d ! (i + 3)]"
proof -
  have 0: "drop i d = d ! i # drop (Suc i) d"
    using assms by (intro Cons_nth_drop_Suc [symmetric]) simp
  have 1: "drop (Suc i) d = d ! (Suc i) # drop (Suc (Suc i)) d"
    using assms by (intro Cons_nth_drop_Suc [symmetric]) simp
  have 2: "drop (Suc (Suc i)) d = d ! (Suc (Suc i)) # drop (Suc (Suc (Suc i))) d"
    using assms by (intro Cons_nth_drop_Suc [symmetric]) simp
  have 3: "drop (Suc (Suc (Suc i))) d = d ! (Suc (Suc (Suc i))) # drop (Suc (Suc (Suc (Suc i)))) d"
    using assms by (intro Cons_nth_drop_Suc [symmetric]) simp
  have "take 4 (drop i d) = [d ! i, d ! Suc i, d ! Suc (Suc i), d ! Suc (Suc (Suc i))]"
    unfolding 0 1 2 3 by (simp add: numeral_eq_Suc)
  then show ?thesis by (simp add: numeral_eq_Suc)
qed

lemma drop_alpha_take_step:
  assumes "4 * k + 4 \<le> length d"
  shows "drop_alpha (take (4 * k + 4) d)
       = drop_alpha (take (4 * k) d) @ [d ! (4 * k), d ! (4 * k + 1), d ! (4 * k + 2)]"
proof -
  have "take (4 * k + 4) d = take (4 * k) d @ take 4 (drop (4 * k) d)"
    by (simp add: take_add)
  moreover have "length (take (4 * k) d) mod 4 = 0" using assms by simp
  ultimately show ?thesis
    using assms by (simp add: drop_alpha_append take4_drop)
qed

lemma copy_pixels_step:
  assumes d: "length d = 4 * n" and st: "length done = start" and k: "k < n" and m: "3 * n \<le> m"
  shows "copy_pixels d start (3 * n) (4 * k) (3 * k)
           (done @ drop_alpha (take (4 * k) d) @ replicate (m - 3 * k) 0)
       = copy_pixels d start (3 * n) (4 * Suc k) (3 * Suc k)
           (done @ drop_alpha (take (4 * Suc k) d) @ replicate (m - 3 * Suc k) 0)"
proof -
  define D where "D = drop_alpha (take (4 * k) d)"
  have lD: "length D = 3 * k"
    unfolding D_def using d k by (intro length_drop_alpha) simp
  define j where "j = m - 3 * Suc k"
  have j: "m - 3 * k = Suc (Suc (Suc j))" "m - 3 * Suc k = j"
    using k m by (simp_all add: j_def)
  have g: "data_get d (4 * k) = d ! (4 * k)" "data_get d (4 * k + 1) = d ! (4 * k + 1)"
    "data_get d (4 * k + 2) = d ! (4 * k + 2)"
    using d k by (simp_all add: data_get_def)
  have 1: "pixels_set start (3 * n) (3 * k) a (done @ D @ 0 # 0 # 0 # replicate j 0)
      = done @ D @ a # 0 # 0 # replicate j 0" for a
    using update_fresh [of "done @ D" "start + 3 * k"] st lD k by (simp add: pixels_set_def)
  have 2: "pixels_set start (3 * n) (3 * k + 1) b (done @ D @ a # 0 # 0 # replicate j 0)
      = done @ D @ a # b # 0 # replicate j 0" for a b
    using update_fresh [of "done @ D @ [a]" "start + (3 * k + 1)"] st lD k by (simp add: pixels_set_def)
  have 3: "pixels_set start (3 * n) (3 * k + 2) c (done @ D @ a # b # 0 # replicate j 0)
      = done @ D @ a # b # c # replicate j 0" for a b c
    using update_fresh [of "done @ D @ [a, b]" "start + (3 * k + 2)"] st lD k by (simp add: pixels_set_def)
  have nxt: "drop_alpha (take (4 * Suc k) d) = D @ [d ! (4 * k), d ! (4 * k + 1), d ! (4 * k + 2)]"
  proof -
    have e: "4 * Suc k = 4 * k + 4" by simp
    have "4 * k + 4 \<le> length d" using d k by simp
    from drop_alpha_take_step [OF this] show ?thesis by (simp only: e D_def)
  qed
  have lt: "4 * k < length d" using d k by simp
  show ?thesis
    apply (subst copy_pixels.simps)
    apply (simp only: lt if_True D_def [symmetric] j replicate_Suc g 1 2 3 nxt)
    apply (simp add: add.commute)
    done
qed

lemma copy_pixels_from:
  assumes d: "length d = 4 * n" and st: "length done = start" and m: "3 * n \<le> m"
  shows "k \<le> n \<Longrightarrow>
     copy_pixels d start (3 * n) (4 * k) (3 * k)
       (done @ drop_alpha (take (4 * k) d) @ replicate (m - 3 * k) 0)
     = done @ drop_alpha d @ replicate (m - 3 * n) 0"
proof (induction "n - k" arbitrary: k)
  case 0
  then have "k = n" by simp
  then show ?case using d by (subst copy_pixels.simps) simp
next
  case (Suc x)
  then have k: "k < n" and x: "x = n - Suc k" and le: "Suc k \<le> n" by simp_all
  show ?case
    unfolding copy_pixels_step [OF d st k m] by (rule Suc.hyps(1) [OF x le])
qed

lemma copy_pixels_fresh:
  assumes "length d = 4 * n" "length done = start" "3 * n \<le> m"
  shows "copy_pixels d start (3 * n) 0 0 (done @ replicate m 0)
       = (done @ drop_alpha d) @ replicate (m - 3 * n) 0"
  using copy_pixels_from [OF assms, of 0] by simp

lemma ebind_Inr: "ebind (Inr x) f = f x"
  by (simp add: ebind_def)

lemma setUint16_fresh0:
  "2 \<le> m \<Longrightarrow> setUint16 0 v (replicate m 0) = Inr (le16 v @ replicate (m - 2) 0)"
  using setUint16_fresh [of "[]" 0 m v] by simp

lemma copy_pixels_fresh':
  assumes "length d = 4 * n" "length done = start" "n * 3 \<le> m"
  shows "copy_pixels d start (n * 3) 0 0 (done @ replicate m 0)
       = (done @ drop_alpha d) @ replicate (m - n * 3) 0"
  using copy_pixels_fresh [of d n "done" start m] assms by (simp add: mult.commute)

lemma createTiffBlob_eq_layout:
  assumes "wf_canvas ctx" "0 < canvas_width ctx" "0 < canvas_height ctx"
  shows "createTiffBlob ctx hres vres
       = Inr (tiff_layout (canvas_width ctx) (canvas_height ctx) (canvas_data ctx) hres vres)"
proof -
  define w where "w = canvas_width ctx"
  define h where "h = canvas_height ctx"
  define d where "d = canvas_data ctx"
  have ld: "length d = 4 * (w * h)" using assms(1) by (simp add: wf_canvas_def w_def h_def d_def)
  have lda: "length (drop_alpha d) = 3 * (w * h)" using ld by (rule length_drop_alpha)
  have g: "getImageData ctx = Inr d" using assms by (simp add: getImageData_def d_def)
  show ?thesis
    unfolding createTiffBlob_def Let_def w_def [symmetric] h_def [symmetric] d_def [symmetric] g ebind_Inr
    apply (simp add: setUint16_fresh0 setUint16_fresh setUint32_fresh writeTag_fresh copy_pixels_fresh' [OF ld] lda ebind_Inr
      del: append_assoc)
    apply (simp add: tiff_layout_def tiff_header_def tiff_extras_def tiff_ifd_def tiff_tags_def rational_def ifd_entry_def mult.commute)
    done
qed

lemma unat_byte: "unat (word_of_int v :: byte) = nat (v mod 2 ^ 8)"
  by (simp add: unat_eq_nat_uint uint_word_of_int)

lemma split16:
  fixes v :: int
  shows "v mod 2 ^ 16 = v mod 2 ^ 8 + 2 ^ 8 * (v div 2 ^ 8 mod 2 ^ 8)"
  using zmod_zmult2_eq [of "2 ^ 8" v "2 ^ 8"] by simp

lemma split32:
  fixes v :: int
  shows "v mod 2 ^ 32 = v mod 2 ^ 8 + 2 ^ 8 * (v div 2 ^ 8 mod 2 ^ 8)
      + 2 ^ 16 * (v div 2 ^ 16 mod 2 ^ 8) + 2 ^ 24 * (v div 2 ^ 24 mod 2 ^ 8)"
proof -
  have a: "v mod 2 ^ 32 = v mod 2 ^ 16 + 2 ^ 16 * (v div 2 ^ 16 mod 2 ^ 16)"
    using zmod_zmult2_eq [of "2 ^ 16" v "2 ^ 16"] by simp
  have b: "v div 2 ^ 16 mod 2 ^ 16 = v div 2 ^ 16 mod 2 ^ 8 + 2 ^ 8 * (v div 2 ^ 16 div 2 ^ 8 mod 2 ^ 8)"
    by (rule split16)
  have c: "v div 2 ^ 16 div 2 ^ 8 = v div 2 ^ 24"
    using zdiv_zmult2_eq [of "2 ^ 8" v "2 ^ 16"] by simp
  show ?thesis unfolding a b c split16 [of v] by simp
qed

lemma getUint16_le16: "getUint16 0 (le16 v @ rest) = Some (nat (v mod 2 ^ 16))"
proof -
  have "nat (v mod 2 ^ 16) = nat (v mod 2 ^ 8) + 2 ^ 8 * nat (v div 2 ^ 8 mod 2 ^ 8)"
    unfolding split16 [of v] by (simp add: nat_add_distrib nat_mult_distrib)
  then show ?thesis by (simp add: getUint16_def le16_def unat_byte)
qed

lemma getUint32_le32: "getUint32 0 (le32 v @ rest) = Some (nat (v mod 2 ^ 32))"
proof -
  have "nat (v mod 2 ^ 32) = nat (v mod 2 ^ 8) + 2 ^ 8 * nat (v div 2 ^ 8 mod 2 ^ 8)
      + 2 ^ 16 * nat (v div 2 ^ 16 mod 2 ^ 8) + 2 ^ 24 * nat (v div 2 ^ 24 mod 2 ^ 8)"
    unfolding split32 [of v] by (simp add: nat_add_distrib nat_mult_distrib)
  then show ?thesis by (simp add: getUint32_def le32_def unat_byte)
qed

lemma getUint16_add:
  "getUint16 (length pre + k) (pre @ rest) = getUint16 k rest"
  by (simp add: getUint16_def nth_append)

lemma getUint32_add:
  "getUint32 (length pre + k) (pre @ rest) = getUint32 k rest"
  by (simp add: getUint32_def nth_append)

lemma nat_int_mod: "nat (int n mod 2 ^ k) = n mod 2 ^ k"
  by (simp add: nat_mod_distrib nat_power_eq)

lemma read_entry_add: "read_entry (pre @ rest) (length pre + k) = read_entry rest k"
  unfolding read_entry_def add.assoc getUint16_add getUint32_add ..

lemma read_entries_add:
  "read_entries (pre @ rest) (length pre + k) n = read_entries rest k n"
proof (induction n arbitrary: k)
  case 0
  show ?case by simp
next
  case (Suc n)
  show ?case
    unfolding read_entries.simps add.assoc read_entry_add Suc ..
qed

lemma length_ifd_entry [simp]: "length (ifd_entry e) = 12"
  by (cases e) (simp add: ifd_entry_def)

lemma read_entry_ifd_entry:
  "read_entry (ifd_entry e @ rest) 0 = Some (reduce_field e)"
proof -
  obtain t ty c v where e: "e = (t, ty, c, v)" by (cases e)
  have 1: "getUint16 0 (le16 (int t) @ le16 (int ty) @ le32 (int c) @ le32 (int v) @ rest)
      = Some (t mod 2 ^ 16)"
    unfolding getUint16_le16 nat_int_mod ..
  have 2: "getUint16 2 (le16 (int t) @ le16 (int ty) @ le32 (int c) @ le32 (int v) @ rest)
      = Some (ty mod 2 ^ 16)"
    using getUint16_add [of "le16 (int t)" 0 "le16 (int ty) @ le32 (int c) @ le32 (int v) @ rest"]
    unfolding getUint16_le16 nat_int_mod by simp
  have 3: "getUint32 4 (le16 (int t) @ le16 (int ty) @ le32 (int c) @ le32 (int v) @ rest)
      = Some (c mod 2 ^ 32)"
    using getUint32_add [of "le16 (int t) @ le16 (int ty)" 0 "le32 (int c) @ le32 (int v) @ rest"]
    unfolding getUint32_le32 nat_int_mod by simp
  have 4: "getUint32 8 (le16 (int t) @ le16 (int ty) @ le32 (int c) @ le32 (int v) @ rest)
      = Some (v mod 2 ^ 32)"
    using getUint32_add [of "le16 (int t) @ le16 (int ty) @ le32 (int c)" 0 "le32 (int v) @ rest"]
    unfolding getUint32_le32 nat_int_mod by simp
  show ?thesis
    unfolding read_entry_def ifd_entry_def e reduce_field_def prod.case append_assoc
    by (simp only: add_0 1 2 3 4 option.case)
qed

lemma read_entries_concat:
  "read_entries (concat (map ifd_entry tags) @ rest) 0 (length tags) = Some (map reduce_field tags)"
proof (induction tags)
  case Nil
  show ?case by simp
next
  case (Cons e tags)
  have "read_entries (ifd_entry e @ concat (map ifd_entry tags) @ rest) (0 + 12) (length tags)
      = read_entries (concat (map ifd_entry tags) @ rest) 0 (length tags)"
    using read_entries_add [of "ifd_entry e" "concat (map ifd_entry tags) @ rest" 0 "length tags"]
    by simp
  then show ?case
    by (simp add: read_entry_ifd_entry Cons)
qed

lemma read_tiff_ifd:
  assumes "length tags < 2 ^ 16"
  shows "getUint16 0 (tiff_ifd tags @ rest) = Some (length tags)"
    and "read_entries (tiff_ifd tags @ rest) 2 (length tags) = Some (map reduce_field tags)"
    and "getUint32 (2 + 12 * length tags) (tiff_ifd tags @ rest) = Some 0"
proof -
  show "getUint16 0 (tiff_ifd tags @ rest) = Some (length tags)"
    unfolding tiff_ifd_def append_assoc getUint16_le16 nat_int_mod using assms by simp
  show "read_entries (tiff_ifd tags @ rest) 2 (length tags) = Some (map reduce_field tags)"
    using read_entries_add [of "le16 (int (length tags))"
        "concat (map ifd_entry tags) @ le32 0 @ rest" 0 "length tags"]
    by (simp add: tiff_ifd_def read_entries_concat)
  have l: "length (concat (map ifd_entry tags)) = 12 * length tags"
    by (induction tags) simp_all
  show "getUint32 (2 + 12 * length tags) (tiff_ifd tags @ rest) = Some 0"
    using getUint32_add [of "le16 (int (length tags)) @ concat (map ifd_entry tags)" 0 "le32 0 @ rest"]
    by (simp add: tiff_ifd_def l getUint32_le32)
qed

lemma length_tiff_header [simp]: "length (tiff_header k) = 8"
  by (simp add: tiff_header_def)

lemma length_tiff_extras [simp]: "length (tiff_extras hres vres) = 22"
  by (simp add: tiff_extras_def rational_def)

lemma read_tiff_header:
  "getUint16 0 (tiff_header k @ rest) = Some 0x4949"
  "getUint16 2 (tiff_header k @ rest) = Some 42"
  "getUint32 4 (tiff_header k @ rest) = Some (k mod 2 ^ 32)"
proof -
  show "getUint16 0 (tiff_header k @ rest) = Some 0x4949"
    by (simp add: tiff_header_def getUint16_le16)
  show "getUint16 2 (tiff_header k @ rest) = Some 42"
    using getUint16_add [of "le16 0x4949" 0 "le16 42 @ le32 (int k) @ rest"]
    by (simp add: tiff_header_def getUint16_le16)
  show "getUint32 4 (tiff_header k @ rest) = Some (k mod 2 ^ 32)"
    using getUint32_add [of "le16 0x4949 @ le16 42" 0 "le32 (int k) @ rest"] nat_int_mod [of k 32]
    by (simp add: tiff_header_def getUint32_le32)
qed

lemma read_tiff_layout:
  assumes len: "length P = n" and tags: "length tags < 2 ^ 16" and n: "8 + n + 22 < 2 ^ 32"
  shows "read_tiff (tiff_header (8 + n + 22) @ P @ tiff_extras hres vres @ tiff_ifd tags)
       = Some (map reduce_field tags, 0)"
proof -
  define pre where "pre = tiff_header (8 + n + 22) @ P @ tiff_extras hres vres"
  have lp: "length pre = 8 + n + 22" by (simp add: pre_def len)
  have out: "tiff_header (8 + n + 22) @ P @ tiff_extras hres vres @ tiff_ifd tags
      = pre @ tiff_ifd tags @ []"
    by (simp add: pre_def)
  have m: "(8 + n + 22) mod 2 ^ 32 = 8 + n + 22" using n by simp
  have a: "getUint16 (8 + n + 22) (pre @ tiff_ifd tags @ []) = Some (length tags)"
    using getUint16_add [of pre 0 "tiff_ifd tags @ []"] read_tiff_ifd(1) [OF tags, of "[]"]
    by (simp add: lp)
  have b: "read_entries (pre @ tiff_ifd tags @ []) (8 + n + 22 + 2) (length tags)
      = Some (map reduce_field tags)"
    using read_entries_add [of pre "tiff_ifd tags @ []" 2 "length tags"]
      read_tiff_ifd(2) [OF tags, of "[]"]
    by (simp add: lp)
  have c: "getUint32 (8 + n + 22 + 2 + 12 * length tags) (pre @ tiff_ifd tags @ []) = Some 0"
    using getUint32_add [of pre "2 + 12 * length tags" "tiff_ifd tags @ []"]
      read_tiff_ifd(3) [OF tags, of "[]"]
    by (simp add: lp add.assoc)
  have h: "getUint16 0 (pre @ tiff_ifd tags @ []) = Some 0x4949"
    "getUint16 2 (pre @ tiff_ifd tags @ []) = Some 42"
    "getUint32 4 (pre @ tiff_ifd tags @ []) = Some (8 + n + 22)"
    using read_tiff_header [of "8 + n + 22" "P @ tiff_extras hres vres @ tiff_ifd tags @ []"] m
    by (simp_all add: pre_def)
  show ?thesis
    unfolding out read_tiff_def h option.case a b c by simp
qed

lemma drop_alpha_nth:
  "length d = 4 * n \<Longrightarrow> j < n \<Longrightarrow> c < 3 \<Longrightarrow> drop_alpha d ! (3 * j + c) = d ! (4 * j + c)"
proof (induction d arbitrary: n j rule: drop_alpha.induct)
  case (1 r g b a rest)
  then obtain n' where n: "n = Suc n'" by (cases n) auto
  with 1 have lr: "length rest = 4 * n'" by simp
  show ?case
  proof (cases j)
    case 0
    with \<open>c < 3\<close> show ?thesis by (auto simp: less_Suc_eq numeral_3_eq_3)
  next
    case (Suc j')
    with 1 n have j': "j' < n'" by simp
    have "drop_alpha (r # g # b # a # rest) ! (3 * j + c) = drop_alpha rest ! (3 * j' + c)"
      by (simp add: Suc numeral_3_eq_3)
    also have "\<dots> = rest ! (4 * j' + c)"
      using "1.IH" [OF lr j' \<open>c < 3\<close>] .
    also have "\<dots> = (r # g # b # a # rest) ! (4 * j + c)"
      by (simp add: Suc numeral_eq_Suc)
    finally show ?thesis .
  qed
qed auto

lemma reduce_tiff_tags:
  assumes "0 < w" "0 < h" "8 + w * h * 3 + 22 < 2 ^ 32"
  shows "map reduce_field (tiff_tags w h) = tiff_tags w h"
proof -
  have "w * 1 \<le> w * h" using assms(2) by (intro mult_le_mono2) simp
  moreover have "1 * h \<le> w * h" using assms(1) by (intro mult_le_mono1) simp
  ultimately have "w \<le> w * h" "h \<le> w * h" by simp_all
  then have "w < 2 ^ 32" "h < 2 ^ 32" using assms(3) by linarith+
  then have wh: "w mod 2 ^ 32 = w" "h mod 2 ^ 32 = h" by simp_all
  have x: "(8 + w * h * 3 + 16) mod 2 ^ 32 = 8 + w * h * 3 + 16"
    "(w * h * 3) mod 2 ^ 32 = w * h * 3"
    "(8 + w * h * 3) mod 2 ^ 32 = 8 + w * h * 3"
    "(8 + w * h * 3 + 8) mod 2 ^ 32 = 8 + w * h * 3 + 8"
    using assms(3) by (simp_all only: mod_less)
  show ?thesis
    unfolding tiff_tags_def reduce_field_def list.map prod.case wh x by simp
qed

lemma read_rational_at:
  "read_rational (pre @ rational num den @ rest) (length pre)
     = Some (nat (num mod 2 ^ 32), nat (den mod 2 ^ 32))"
proof -
  have 1: "getUint32 (length pre) (pre @ le32 num @ le32 den @ rest) = Some (nat (num mod 2 ^ 32))"
    using getUint32_add [of pre 0 "le32 num @ le32 den @ rest"] by (simp add: getUint32_le32)
  have 2: "getUint32 (length pre + 4) (pre @ le32 num @ le32 den @ rest) = Some (nat (den mod 2 ^ 32))"
    using getUint32_add [of "pre @ le32 num" 0 "le32 den @ rest"] by (simp add: getUint32_le32)
  show ?thesis
    unfolding read_rational_def rational_def append_assoc 1 2 by simp
qed

lemma read_shorts3_at:
  "read_shorts3 (pre @ le16 a @ le16 b @ le16 c @ rest) (length pre)
     = Some (nat (a mod 2 ^ 16), nat (b mod 2 ^ 16), nat (c mod 2 ^ 16))"
proof -
  have 1: "getUint16 (length pre) (pre @ le16 a @ le16 b @ le16 c @ rest) = Some (nat (a mod 2 ^ 16))"
    using getUint16_add [of pre 0 "le16 a @ le16 b @ le16 c @ rest"] by (simp add: getUint16_le16)
  have 2: "getUint16 (length pre + 2) (pre @ le16 a @ le16 b @ le16 c @ rest) = Some (nat (b mod 2 ^ 16))"
    using getUint16_add [of "pre @ le16 a" 0 "le16 b @ le16 c @ rest"] by (simp add: getUint16_le16)
  have 3: "getUint16 (length pre + 4) (pre @ le16 a @ le16 b @ le16 c @ rest) = Some (nat (c mod 2 ^ 16))"
    using getUint16_add [of "pre @ le16 a @ le16 b" 0 "le16 c @ rest"] by (simp add: getUint16_le16)
  show ?thesis
    unfolding read_shorts3_def 1 2 3 by simp
qed


lemma length_tiff_ifd [simp]: "length (tiff_ifd tags) = 2 + 12 * length tags + 4"
proof -
  have "length (concat (map ifd_entry tags)) = 12 * length tags"
    by (induction tags) simp_all
  then show ?thesis by (simp add: tiff_ifd_def)
qed

lemma length_tiff_layout:
  "length d = 4 * (w * h) \<Longrightarrow> length (tiff_layout w h d hres vres) = 180 + 3 * (w * h)"
  by (simp add: tiff_layout_def length_drop_alpha tiff_tags_def)

lemma tiff_layout_pixel:
  assumes "length d = 4 * (w * h)" "j < w * h" "c < 3"
  shows "tiff_layout w h d hres vres ! (8 + 3 * j + c) = d ! (4 * j + c)"
proof -
  have l: "length (drop_alpha d) = 3 * (w * h)" using assms(1) by (rule length_drop_alpha)
  have "3 * j + c < 3 * (w * h)" using assms(2,3) by simp
  then have "tiff_layout w h d hres vres ! (8 + 3 * j + c) = drop_alpha d ! (3 * j + c)"
    using nth_append_length_plus [of "tiff_header (8 + w * h * 3 + 22)"
        "drop_alpha d @ tiff_extras hres vres @ tiff_ifd (tiff_tags w h)" "3 * j + c"]
    by (simp add: tiff_layout_def nth_append l add.assoc)
  then show ?thesis using drop_alpha_nth [OF assms] by simp
qed

lemma tiff_layout_strip:
  assumes "length d = 4 * (w * h)"
  shows "take (w * h * 3) (drop 8 (tiff_layout w h d hres vres)) = drop_alpha d"
proof -
  have l: "length (drop_alpha d) = w * h * 3"
    using length_drop_alpha [OF assms] by (simp add: mult.commute)
  show ?thesis by (simp add: tiff_layout_def l)
qed

lemma tiff_layout_read:
  assumes d: "length d = 4 * (w * h)" and pos: "0 < w" "0 < h"
    and n: "8 + w * h * 3 + 22 < 2 ^ 32"
  shows "read_tiff (tiff_layout w h d hres vres) = Some (tiff_tags w h, 0)"
proof -
  have l: "length (drop_alpha d) = w * h * 3"
    using length_drop_alpha [OF d] by (simp add: mult.commute)
  have "length (tiff_tags w h) < 2 ^ 16" by (simp add: tiff_tags_def)
  from read_tiff_layout [OF l this n, of hres vres] show ?thesis
    by (simp add: tiff_layout_def reduce_tiff_tags [OF pos n])
qed

lemma tiff_layout_resolution:
  assumes d: "length d = 4 * (w * h)"
  shows "read_rational (tiff_layout w h d hres vres) (8 + w * h * 3)
           = Some (nat (round (hres * 100) mod 2 ^ 32), 100)"
    and "read_rational (tiff_layout w h d hres vres) (8 + w * h * 3 + 8)
           = Some (nat (round (vres * 100) mod 2 ^ 32), 100)"
    and "read_shorts3 (tiff_layout w h d hres vres) (8 + w * h * 3 + 16) = Some (8, 8, 8)"
proof -
  have l: "length (drop_alpha d) = w * h * 3"
    using length_drop_alpha [OF d] by (simp add: mult.commute)
  define H where "H = tiff_header (8 + w * h * 3 + 22) @ drop_alpha d"
  have lH: "length H = 8 + w * h * 3" by (simp add: H_def l)
  define I where "I = tiff_ifd (tiff_tags w h)"
  have out: "tiff_layout w h d hres vres
     = H @ rational (round (hres * 100)) 100 @ rational (round (vres * 100)) 100
         @ le16 8 @ le16 8 @ le16 8 @ I"
    by (simp add: tiff_layout_def tiff_extras_def H_def I_def)
  show "read_rational (tiff_layout w h d hres vres) (8 + w * h * 3)
           = Some (nat (round (hres * 100) mod 2 ^ 32), 100)"
    unfolding out using read_rational_at [of H "round (hres * 100)" 100] by (simp add: lH)
  show "read_rational (tiff_layout w h d hres vres) (8 + w * h * 3 + 8)
           = Some (nat (round (vres * 100) mod 2 ^ 32), 100)"
    unfolding out
    using read_rational_at [of "H @ rational (round (hres * 100)) 100" "round (vres * 100)" 100]
    by (simp add: lH rational_def)
  show "read_shorts3 (tiff_layout w h d hres vres) (8 + w * h * 3 + 16) = Some (8, 8, 8)"
    unfolding out
    using read_shorts3_at [of "H @ rational (round (hres * 100)) 100 @ rational (round (vres * 100)) 100" 8 8 8 I]
    by (simp add: lH rational_def)
qed


lemma tiff_layout_exact_resolution:
  assumes d: "length d = 4 * (w * h)" and k: "k < 2 ^ 32" "hres = real k / 100"
  shows "read_rational (tiff_layout w h d hres vres) (8 + w * h * 3) = Some (k, 100)"
proof -
  have "hres * 100 = of_int (int k)" using k(2) by simp
  then have "round (hres * 100) = int k" by (simp only: round_of_int)
  moreover have "nat (int k mod 2 ^ 32) = k" using k(1) nat_int_mod [of k 32] by simp
  ultimately show ?thesis using tiff_layout_resolution(1) [OF d, of hres vres] by simp
qed

text \<open>
  Claim C2, as the code has it. For a canvas of \<open>w\<close> by \<open>h\<close> pixels (both positive)
  and any densities, \<^verbatim>\<open>createTiffBlob\<close> returns exactly the bytes of \<open>tiff_layout\<close>: the
  8-byte little-endian header (0x4949, 42, the offset of the directory, which is past the
  pixel data and the out-of-line values), then \<open>3 w h\<close> pixel bytes, the R, G and B of
  each source pixel in row-major order without the alpha byte, then the XResolution and
  YResolution rationals and BitsPerSample (8,8,8), then the directory of the 12 tags of
  \<open>tiff_tags\<close> in ascending order and a terminal 4-byte zero. When the file offsets fit
  in 32 bits, reading the file back gives these tags (ImageWidth \<open>w\<close>, ImageLength
  \<open>h\<close>, ...), the strip, and as numerator of each resolution \<open>round (density * 100)\<close>
  reduced modulo \<open>2^32\<close> over the denominator 100; XResolution is \<open>hppi\<close> itself when
  \<open>hppi\<close> is \<open>k / 100\<close> for a natural \<open>k\<close> below \<open>2^32\<close>.
\<close>

theorem createTiffBlob_layout:
  assumes "wf_canvas ctx" "0 < canvas_width ctx" "0 < canvas_height ctx"
  shows "let w = canvas_width ctx; h = canvas_height ctx; d = canvas_data ctx;
             out = tiff_layout w h d hres vres
         in createTiffBlob ctx hres vres = Inr out
          \<and> length (drop_alpha d) = 3 * (w * h)
          \<and> (\<forall>j<w * h. \<forall>c<3. out ! (8 + 3 * j + c) = d ! (4 * j + c))
          \<and> map fst (tiff_tags w h) = [256, 257, 258, 259, 262, 273, 277, 278, 279, 282, 283, 296]
          \<and> (8 + w * h * 3 + 22 < 2 ^ 32 \<longrightarrow>
                read_tiff out = Some (tiff_tags w h, 0)
              \<and> take (w * h * 3) (drop 8 out) = drop_alpha d
              \<and> read_rational out (8 + w * h * 3) = Some (nat (round (hres * 100) mod 2 ^ 32), 100)
              \<and> read_rational out (8 + w * h * 3 + 8) = Some (nat (round (vres * 100) mod 2 ^ 32), 100)
              \<and> read_shorts3 out (8 + w * h * 3 + 16) = Some (8, 8, 8)
              \<and> (\<forall>k<2 ^ 32. hres = real k / 100 \<longrightarrow>
                    read_rational out (8 + w * h * 3) = Some (k, 100)))"
proof -
  define w where "w = canvas_width ctx"
  define h where "h = canvas_height ctx"
  define d where "d = canvas_data ctx"
  have ld: "length d = 4 * (w * h)"
    using assms(1) by (simp add: wf_canvas_def w_def h_def d_def)
  have pos: "0 < w" "0 < h" using assms(2,3) by (simp_all add: w_def h_def)
  have 1: "createTiffBlob ctx hres vres = Inr (tiff_layout w h d hres vres)"
    unfolding w_def h_def d_def using assms by (rule createTiffBlob_eq_layout)
  have 2: "length (drop_alpha d) = 3 * (w * h)" using ld by (rule length_drop_alpha)
  have 3: "\<forall>j<w * h. \<forall>c<3. tiff_layout w h d hres vres ! (8 + 3 * j + c) = d ! (4 * j + c)"
    using tiff_layout_pixel [OF ld] by blast
  have 4: "map fst (tiff_tags w h) = [256, 257, 258, 259, 262, 273, 277, 278, 279, 282, 283, 296]"
    by (simp add: tiff_tags_def)
  have 5: "read_tiff (tiff_layout w h d hres vres) = Some (tiff_tags w h, 0)"
    if "8 + w * h * 3 + 22 < 2 ^ 32"
    using tiff_layout_read [OF ld pos that] .
  have 6: "\<forall>k<2 ^ 32. hres = real k / 100 \<longrightarrow>
      read_rational (tiff_layout w h d hres vres) (8 + w * h * 3) = Some (k, 100)"
    using tiff_layout_exact_resolution [OF ld] by blast
  show ?thesis
    unfolding Let_def w_def [symmetric] h_def [symmetric] d_def [symmetric]
    using 1 2 3 4 5 6 tiff_layout_strip [OF ld, of hres vres]
      tiff_layout_resolution [OF ld, of hres vres]
    by (intro conjI impI) assumption+
qed


text \<open>The round trip of the specification: a 2 by 2 raster at 300 PPI.\<close>

theorem createTiffBlob_layout_witness:
  "wf_canvas raster_2x2 \<and> 0 < canvas_width raster_2x2 \<and> 0 < canvas_height raster_2x2
   \<and> createTiffBlob raster_2x2 300 300 = Inr (tiff_layout 2 2 (canvas_data raster_2x2) 300 300)
   \<and> tiff_layout 2 2 (canvas_data raster_2x2) 300 300 ! 13 = 60
   \<and> take 12 (drop 8 (tiff_layout 2 2 (canvas_data raster_2x2) 300 300))
        = [10, 20, 30, 40, 50, 60, 70, 80, 90, 100, 110, 120]
   \<and> read_tiff (tiff_layout 2 2 (canvas_data raster_2x2) 300 300) = Some (tiff_tags 2 2, 0)
   \<and> read_rational (tiff_layout 2 2 (canvas_data raster_2x2) 300 300) 20 = Some (30000, 100)"
proof -
  have wf: "wf_canvas raster_2x2" by (simp add: wf_canvas_def raster_2x2_def)
  have p: "0 < canvas_width raster_2x2" "0 < canvas_height raster_2x2"
    by (simp_all add: raster_2x2_def)
  have sel: "canvas_width raster_2x2 = 2" "canvas_height raster_2x2 = 2"
    by (simp_all add: raster_2x2_def)
  note t = createTiffBlob_layout [OF wf p, of 300 300, unfolded Let_def sel]
  have small: "8 + 2 * 2 * 3 + 22 < (2::nat) ^ 32" by simp
  have a: "createTiffBlob raster_2x2 300 300 = Inr (tiff_layout 2 2 (canvas_data raster_2x2) 300 300)"
    using t by (rule conjunct1)
  have "(1::nat) < 2 * 2 \<and> (2::nat) < 3" by simp
  with t have "tiff_layout 2 2 (canvas_data raster_2x2) 300 300 ! (8 + 3 * 1 + 2)
      = canvas_data raster_2x2 ! (4 * 1 + 2)" by blast
  then have b: "tiff_layout 2 2 (canvas_data raster_2x2) 300 300 ! 13 = 60"
    by (simp add: raster_2x2_def)
  from t small have c: "take (2 * 2 * 3) (drop 8 (tiff_layout 2 2 (canvas_data raster_2x2) 300 300))
      = drop_alpha (canvas_data raster_2x2)" by blast
  from t small have d: "read_tiff (tiff_layout 2 2 (canvas_data raster_2x2) 300 300)
      = Some (tiff_tags 2 2, 0)" by blast
  have "(30000::nat) < 2 ^ 32 \<and> (300::real) = real 30000 / 100" by simp
  with t small have e: "read_rational (tiff_layout 2 2 (canvas_data raster_2x2) 300 300) (8 + 2 * 2 * 3)
      = Some (30000, 100)" by blast
  have c': "take 12 (drop 8 (tiff_layout 2 2 (canvas_data raster_2x2) 300 300))
        = [10, 20, 30, 40, 50, 60, 70, 80, 90, 100, 110, 120]"
    using c by (simp add: raster_2x2_def)
  show ?thesis using wf p a b c' d e by simp
qed

lemma wf_raster_1x1:
  "wf_canvas raster_1x1" "0 < canvas_width raster_1x1" "0 < canvas_height raster_1x1"
  "canvas_width raster_1x1 = 1" "canvas_height raster_1x1 = 1"
  "canvas_data raster_1x1 = [10, 20, 30, 255]"
  by (simp_all add: wf_canvas_def raster_1x1_def)

lemma createTiffBlob_raster_1x1:
  "createTiffBlob raster_1x1 hres vres = Inr (tiff_layout 1 1 [10, 20, 30, 255] hres vres)"
  using createTiffBlob_eq_layout [OF wf_raster_1x1(1-3), of hres vres]
  by (simp only: wf_raster_1x1(4-6))

lemma read_rational_raster_1x1:
  "read_rational (tiff_layout 1 1 [10, 20, 30, 255] hres vres) 11
     = Some (nat (round (hres * 100) mod 2 ^ 32), 100)"
  using tiff_layout_resolution(1) [of "[10, 20, 30, 255]" 1 1 hres vres] by simp

text \<open>
  Claim C2 as stated fails for a density that is not a multiple of 1/100: at
  \<open>hppi = 300.125\<close> the numerator is 30013, and 30013/100 is not \<open>hppi\<close>.
\<close>

theorem createTiffBlob_layout_counterexample:
  "createTiffBlob raster_1x1 (2401 / 8) 300 = Inr (tiff_layout 1 1 [10, 20, 30, 255] (2401 / 8) 300)
   \<and> read_rational (tiff_layout 1 1 [10, 20, 30, 255] (2401 / 8) 300) 11 = Some (30013, 100)
   \<and> (30013 :: real) / 100 \<noteq> 2401 / 8"
proof -
  have "round (2401 / 8 * 100 :: real) = 30013" by (simp add: round_def)
  then show ?thesis
    using createTiffBlob_raster_1x1 [of "2401 / 8" 300] read_rational_raster_1x1 [of "2401 / 8" 300]
    by simp
qed

text \<open>
  Claim C7, as the code has it. \<^verbatim>\<open>createTiffBlob\<close> has no check of the sizes it
  writes. The only input it rejects is an empty canvas, for which \<^verbatim>\<open>getImageData\<close>
  raises IndexSizeError; for every other canvas and every pair of densities it returns a
  buffer of \<open>180 + 3 w h\<close> bytes, in which the numerator of each resolution is
  \<open>round (density * 100)\<close> reduced modulo \<open>2^32\<close>.
\<close>

theorem createTiffBlob_no_overflow_check:
  assumes "wf_canvas ctx"
  shows "(canvas_width ctx = 0 \<or> canvas_height ctx = 0 \<longrightarrow>
            createTiffBlob ctx hres vres = Inl IndexSizeError)
       \<and> (0 < canvas_width ctx \<and> 0 < canvas_height ctx \<longrightarrow>
            (\<exists>out. createTiffBlob ctx hres vres = Inr out
               \<and> length out = 180 + 3 * (canvas_width ctx * canvas_height ctx)
               \<and> read_rational out (8 + canvas_width ctx * canvas_height ctx * 3)
                    = Some (nat (round (hres * 100) mod 2 ^ 32), 100)
               \<and> read_rational out (8 + canvas_width ctx * canvas_height ctx * 3 + 8)
                    = Some (nat (round (vres * 100) mod 2 ^ 32), 100)))"
proof (intro conjI impI)
  assume "canvas_width ctx = 0 \<or> canvas_height ctx = 0"
  then show "createTiffBlob ctx hres vres = Inl IndexSizeError"
    by (simp add: createTiffBlob_def getImageData_def ebind_def Let_def)
next
  assume pos: "0 < canvas_width ctx \<and> 0 < canvas_height ctx"
  have ld: "length (canvas_data ctx) = 4 * (canvas_width ctx * canvas_height ctx)"
    using assms by (simp add: wf_canvas_def)
  show "\<exists>out. createTiffBlob ctx hres vres = Inr out
               \<and> length out = 180 + 3 * (canvas_width ctx * canvas_height ctx)
               \<and> read_rational out (8 + canvas_width ctx * canvas_height ctx * 3)
                    = Some (nat (round (hres * 100) mod 2 ^ 32), 100)
               \<and> read_rational out (8 + canvas_width ctx * canvas_height ctx * 3 + 8)
                    = Some (nat (round (vres * 100) mod 2 ^ 32), 100)"
    using createTiffBlob_eq_layout [OF assms conjunct1 [OF pos] conjunct2 [OF pos], of hres vres]
      length_tiff_layout [OF ld, of hres vres] tiff_layout_resolution(1,2) [OF ld, of hres vres]
    by blast
qed

theorem createTiffBlob_no_overflow_check_witness:
  "wf_canvas raster_1x1 \<and> 0 < canvas_width raster_1x1 \<and> 0 < canvas_height raster_1x1
   \<and> (\<exists>out. createTiffBlob raster_1x1 42949673 300 = Inr out \<and> length out = 183
         \<and> read_rational out 11 = Some (4, 100))
   \<and> wf_canvas (raster_1x1\<lparr>canvas_width := 0, canvas_data := []\<rparr>)
   \<and> createTiffBlob (raster_1x1\<lparr>canvas_width := 0, canvas_data := []\<rparr>) 300 300 = Inl IndexSizeError"
proof -
  have r: "nat (round (42949673 * 100 :: real) mod 2 ^ 32) = 4" by (simp add: round_def)
  have wf0: "wf_canvas (raster_1x1\<lparr>canvas_width := 0, canvas_data := []\<rparr>)"
    by (simp add: wf_canvas_def)
  show ?thesis
    using createTiffBlob_no_overflow_check [OF wf_raster_1x1(1), of 42949673 300]
      createTiffBlob_no_overflow_check [OF wf0, of 300 300] wf0 r
    by (simp add: wf_raster_1x1) blast
qed

text \<open>
  Claim C7 as stated fails: at \<open>hppi = 42949673\<close> the numerator 4294967300 does not
  fit in 32 bits, and the function returns a buffer, with the numerator 4 in it.
\<close>

theorem createTiffBlob_overflow_counterexample:
  "round (42949673 * 100 :: real) = 4294967300 \<and> (2::int) ^ 32 \<le> 4294967300
   \<and> createTiffBlob raster_1x1 42949673 300 = Inr (tiff_layout 1 1 [10, 20, 30, 255] 42949673 300)
   \<and> read_rational (tiff_layout 1 1 [10, 20, 30, 255] 42949673 300) 11 = Some (4, 100)"
proof -
  have "round (42949673 * 100 :: real) = 4294967300" by (simp add: round_def)
  then show ?thesis
    using createTiffBlob_raster_1x1 [of 42949673 300] read_rational_raster_1x1 [of 42949673 300]
    by simp
qed

section \<open>Interlacer: the strips drawn\<close>

lemma frame_loop_enumerate:
  "frame_loop g lensX f seqData =
     map (\<lambda>(i, img, fr).
        ClipDrawImage (real_of_int (drawOffsetX g) + lensX + (real i * stripPx g))
          (real_of_int (drawOffsetY g)) (stripPx g) (real_of_int (contentHeightPx g)) img
          (real_of_int (drawOffsetX g) + xOffset fr) (real_of_int (drawOffsetY g) + yOffset fr)
          (real_of_int (contentWidthPx g)) (real_of_int (contentHeightPx g)))
       (enumerate f seqData)"
  by (induction g lensX f seqData rule: frame_loop.induct) (simp_all add: Let_def)

lemma lens_loop_pos:
  assumes p: "0 < pPx g" and N: "N = \<lceil>real_of_int (contentWidthPx g) / pPx g\<rceil>"
  shows "lens_loop g N seqData l
       = concat (map (\<lambda>l. frame_loop g (real l * pPx g) 0 seqData) [l..<nat N])"
proof (induction "nat N - l" arbitrary: l)
  case 0
  then have "\<not> int l < N" by linarith
  moreover have "[l..<nat N] = []" using 0 by simp
  ultimately show ?case by (subst lens_loop.simps) simp
next
  case (Suc x)
  then have lt: "int l < N" and x: "x = nat N - Suc l" by linarith+
  have "real l < real_of_int N" using lt by linarith
  moreover have "real_of_int N < real_of_int (contentWidthPx g) / pPx g + 1"
    unfolding N by linarith
  ultimately have "real l < real_of_int (contentWidthPx g) / pPx g"
    using lt unfolding N by (simp add: less_ceiling_iff)
  then have nb: "\<not> real l * pPx g \<ge> real_of_int (contentWidthPx g)"
    using p by (simp add: pos_less_divide_eq not_le)
  have up: "[l..<nat N] = l # [Suc l..<nat N]"
    using lt by (simp add: upt_conv_Cons)
  show ?case
    by (subst lens_loop.simps) (simp add: lt nb Let_def up Suc.hyps(1) [OF x])
qed

lemma lens_loop_nonpos:
  assumes p: "pPx g \<le> 0" and N: "N = (if pPx g = 0 then 0 else \<lceil>real_of_int (contentWidthPx g) / pPx g\<rceil>)"
  shows "lens_loop g N seqData 0 = []"
proof (cases "0 < N")
  case False
  then show ?thesis by (subst lens_loop.simps) simp
next
  case True
  then have p': "pPx g < 0" and "0 < \<lceil>real_of_int (contentWidthPx g) / pPx g\<rceil>"
    using p N by (auto split: if_splits)
  then have "0 < real_of_int (contentWidthPx g) / pPx g" by (simp add: less_ceiling_iff)
  then have "real_of_int (contentWidthPx g) < 0" using p' by (simp add: zero_less_divide_iff)
  then show ?thesis by (subst lens_loop.simps) (simp add: Let_def)
qed

lemma loadAll_error: "loadAll c d fs = Inl e \<Longrightarrow> e = ImageLoadError"
  by (induction fs arbitrary: e)
     (auto simp: loadImage_def split: sum.splits option.splits)

lemma loadAll_append:
  "loadAll c d (xs @ ys) =
     (case loadAll c d xs of
        Inl e \<Rightarrow> Inl e
      | Inr a \<Rightarrow> (case loadAll c d ys of Inl e \<Rightarrow> Inl e | Inr b \<Rightarrow> Inr (a @ b)))"
  by (induction xs) (auto split: sum.splits)

lemma loadAll_rev:
  "loadAll c d (rev fs) = (case loadAll c d fs of Inl e \<Rightarrow> Inl e | Inr xs \<Rightarrow> Inr (rev xs))"
proof (induction fs)
  case Nil
  show ?case by simp
next
  case (Cons f fs)
  show ?case
    using loadAll_error [of c d fs] loadAll_error [of c d "[f]"]
    by (auto simp: loadAll_append Cons split: sum.splits)
qed

lemma generateLenticularImage_rev:
  "generateLenticularImage frames (s\<lparr>direction := RL\<rparr>) ctx c d
     = generateLenticularImage (rev frames) (s\<lparr>direction := LR\<rparr>) ctx c d"
proof (cases "loadAll c d frames")
  case (Inl e)
  then show ?thesis
    by (simp add: generateLenticularImage_def loadAll_rev ebind_def)
next
  case (Inr imgs)
  then show ?thesis
    by (simp add: generateLenticularImage_def loadAll_rev ebind_def Let_def)
qed

lemma loadAll_frames:
  "loadAll c d fs = Inr imgs \<Longrightarrow> map snd imgs = fs"
  by (induction fs arbitrary: imgs)
     (auto simp: loadImage_def split: sum.splits option.splits)

lemma loadAll_length: "loadAll c d fs = Inr imgs \<Longrightarrow> length imgs = length fs"
  using loadAll_frames [of c d fs imgs] by (metis length_map)

lemma filter_strip_frame_loop [simp]:
  "filter is_strip (frame_loop g lensX f seqData) = frame_loop g lensX f seqData"
  by (induction g lensX f seqData rule: frame_loop.induct) (simp_all add: Let_def)

lemma filter_strip_concat_frame_loop [simp]:
  "filter is_strip (concat (map (\<lambda>l. frame_loop g (F l) 0 seqData) ls))
     = concat (map (\<lambda>l. frame_loop g (F l) 0 seqData) ls)"
  by (induction ls) simp_all

lemma filter_strip_drawPattern [simp]: "filter is_strip (drawPattern p x y h) = []"
  by (simp add: drawPattern_def Let_def)

lemma lens_loop_closed:
  assumes N: "N = (if pPx g = 0 then 0 else \<lceil>real_of_int (contentWidthPx g) / pPx g\<rceil>)"
  shows "lens_loop g N seqData 0
       = concat (map (\<lambda>l. frame_loop g (real l * pPx g) 0 seqData)
           [0..<(if 0 < pPx g then nat \<lceil>real_of_int (contentWidthPx g) / pPx g\<rceil> else 0)])"
proof (cases "0 < pPx g")
  case True
  then have "N = \<lceil>real_of_int (contentWidthPx g) / pPx g\<rceil>" using N by simp
  from lens_loop_pos [OF True this, of seqData 0] show ?thesis
    using True \<open>N = \<lceil>real_of_int (contentWidthPx g) / pPx g\<rceil>\<close> by simp
next
  case False
  then have "pPx g \<le> 0" by simp
  from lens_loop_nonpos [OF this N, of seqData] show ?thesis using False by simp
qed

lemma generateLenticularImage_loops:
  fixes s :: jobSettings and frames :: "frame list"
  defines "g \<equiv> \<lparr>pPx = hppi s / lpi s, stripPx = hppi s / lpi s / real (length frames),
     contentWidthPx = px (widthMm s) (hppi s), contentHeightPx = px (heightMm s) (vppi s),
     drawOffsetX = px (marginLeftMm s) (hppi s), drawOffsetY = px (marginTopMm s) (vppi s)\<rparr>"
  defines "N \<equiv> (if pPx g = 0 then 0 else \<lceil>real_of_int (contentWidthPx g) / pPx g\<rceil>)"
  assumes load: "loadAll c d frames = Inr imgs"
  shows "\<exists>marks. generateLenticularImage frames s True c d
      = Inr \<lparr>out_width = px (widthMm s) (hppi s) + px (marginLeftMm s) (hppi s) + px (marginRightMm s) (hppi s),
             out_height = px (heightMm s) (vppi s) + px (marginTopMm s) (vppi s) + px (marginBottomMm s) (vppi s),
             out_commands = FillRect ''#ffffff'' 0 0
                (real_of_int (px (widthMm s) (hppi s) + px (marginLeftMm s) (hppi s) + px (marginRightMm s) (hppi s)))
                (real_of_int (px (heightMm s) (vppi s) + px (marginTopMm s) (vppi s) + px (marginBottomMm s) (vppi s)))
              # lens_loop g N (if direction s = RL then rev imgs else imgs) 0 @ marks\<rparr>
      \<and> filter is_strip marks = []"
  unfolding generateLenticularImage_def Let_def ebind_def load sum.case px_def [symmetric]
  by (simp add: g_def N_def)

lemma generateLenticularImage_strips:
  assumes "loadAll c d frames = Inr imgs"
  shows "\<exists>out. generateLenticularImage frames s True c d = Inr out
           \<and> filter is_strip (out_commands out)
               = spec_strips s (if direction s = RL then rev imgs else imgs)"
proof -
  define seqData where "seqData = (if direction s = RL then rev imgs else imgs)"
  have len: "length seqData = length frames"
    using loadAll_length [OF assms] by (simp add: seqData_def)
  define g where "g = \<lparr>pPx = hppi s / lpi s, stripPx = hppi s / lpi s / real (length frames),
     contentWidthPx = px (widthMm s) (hppi s), contentHeightPx = px (heightMm s) (vppi s),
     drawOffsetX = px (marginLeftMm s) (hppi s), drawOffsetY = px (marginTopMm s) (vppi s)\<rparr>"
  define N where "N = (if pPx g = 0 then 0 else \<lceil>real_of_int (contentWidthPx g) / pPx g\<rceil>)"
  have strips: "lens_loop g N seqData 0 = spec_strips s seqData"
    unfolding lens_loop_closed [OF N_def] spec_strips_def spec_lens_count_def frame_loop_enumerate
    by (simp add: g_def spec_pitch_px_def spec_strip_def [abs_def] spec_strip_start_def
        spec_strip_width_def len add.assoc case_prod_unfold)
  from generateLenticularImage_loops [OF assms, of s]
  show ?thesis
    unfolding seqData_def [symmetric] g_def [symmetric] N_def [symmetric] strips [symmetric]
    by (auto simp: lens_loop_closed [OF N_def])
qed






lemma filter_strips_in [simp]: "filter is_strip (strips_in b s seqData K) = strips_in b s seqData K"
proof -
  have "filter is_strip (map (strip_in b s n l) xs) = map (strip_in b s n l) xs" for n l xs
    by (induction xs) (simp_all add: strip_in_def case_prod_unfold)
  then show ?thesis
    unfolding strips_in_def by (induction "[0..<K]" arbitrary: K) (simp_all add: filter_concat comp_def)
qed












text \<open>
  Claim C4. Interlacing a list of frames with direction RL gives the same result, and
  so the same raster, as interlacing the reversed list with direction LR; a frame's
  offset is a field of the frame and is reversed with it.
\<close>

theorem generateLenticularImage_direction:
  "generateLenticularImage frames (s\<lparr>direction := RL\<rparr>) ctx c d
     = generateLenticularImage (rev frames) (s\<lparr>direction := LR\<rparr>) ctx c d"
  by (rule generateLenticularImage_rev)

lemma loadAll_CBA:
  "loadAll Map.empty decode_ABC [frame_C, frame_B, frame_A]
     = Inr [(image_of frame_C, frame_C), (image_of frame_B, frame_B), (image_of frame_A, frame_A)]"
  by (simp add: loadImage_def decode_ABC_def frame_A_def frame_B_def frame_C_def)

theorem generateLenticularImage_direction_witness:
  "generateLenticularImage [frame_A, frame_B, frame_C] (job_60lpi\<lparr>direction := RL\<rparr>) True
       Map.empty decode_ABC
     = generateLenticularImage [frame_C, frame_B, frame_A] (job_60lpi\<lparr>direction := LR\<rparr>) True
         Map.empty decode_ABC
   \<and> (\<exists>out. generateLenticularImage [frame_A, frame_B, frame_C] (job_60lpi\<lparr>direction := RL\<rparr>) True
         Map.empty decode_ABC = Inr out
       \<and> filter is_strip (out_commands out)
           = spec_strips (job_60lpi\<lparr>direction := LR\<rparr>)
               [(image_of frame_C, frame_C), (image_of frame_B, frame_B), (image_of frame_A, frame_A)])"
proof -
  have e: "generateLenticularImage [frame_A, frame_B, frame_C] (job_60lpi\<lparr>direction := RL\<rparr>) True
       Map.empty decode_ABC
     = generateLenticularImage [frame_C, frame_B, frame_A] (job_60lpi\<lparr>direction := LR\<rparr>) True
         Map.empty decode_ABC"
    using generateLenticularImage_direction [of "[frame_A, frame_B, frame_C]" job_60lpi True
        Map.empty decode_ABC] by simp
  from generateLenticularImage_strips [OF loadAll_CBA, of "job_60lpi\<lparr>direction := LR\<rparr>"]
  show ?thesis unfolding e by simp
qed

section \<open>Interlacer: the calibration chart\<close>












lemma texts_append [simp]: "texts (xs @ ys) = texts xs @ texts ys"
  by (simp add: texts_def)

lemma texts_Cons [simp]: "texts (x # xs) = text_of x @ texts xs"
  by (simp add: texts_def)

lemma texts_Nil [simp]: "texts [] = []"
  by (simp add: texts_def)



section \<open>ParallaxRenderer: guards, effects and indices\<close>

lemma column_t_range:
  "0 \<le> column_t js ps fovRad simX drawW x" "column_t js ps fovRad simX drawW x < 1"
  unfolding column_t_def Let_def by linarith+

lemma frame_indices_range:
  assumes t: "0 \<le> t" "t < 1" and n: "1 \<le> n" and f: "frame_indices t n = (idx, nextIdx, mix)"
  shows "0 \<le> idx \<and> idx \<le> int n - 1 \<and> 0 \<le> nextIdx \<and> nextIdx \<le> int n - 1
         \<and> (n = 1 \<longrightarrow> idx = 0 \<and> nextIdx = 0)"
proof -
  have idx: "idx = \<lfloor>t * (real n - 1)\<rfloor>" and nxt: "nextIdx = min (idx + 1) (int n - 1)"
    using f by (auto simp: frame_indices_def Let_def)
  have nn: "0 \<le> real n - 1" using n by simp
  have lo: "0 \<le> t * (real n - 1)" using t(1) nn by simp
  have "t * (real n - 1) \<le> 1 * (real n - 1)"
    using t(2) nn by (intro mult_right_mono) simp_all
  then have hi: "t * (real n - 1) \<le> real_of_int (int n - 1)" by simp
  have i0: "0 \<le> idx" unfolding idx using lo by simp
  have "\<lfloor>t * (real n - 1)\<rfloor> \<le> \<lfloor>real_of_int (int n - 1)\<rfloor>" using hi by (rule floor_mono)
  then have i1: "idx \<le> int n - 1" unfolding idx by simp
  have "n = 1 \<longrightarrow> idx = 0" unfolding idx by simp
  then show ?thesis using i0 i1 n unfolding nxt by auto
qed

lemma column_loop_draws:
  assumes ne: "images \<noteq> []"
  shows "\<exists>cols. column_loop images js ps fovRad simX drawW drawH offX offY x = Inr cols
           \<and> (\<forall>c\<in>set cols. is_draw c)"
proof (induction "nat \<lceil>drawW\<rceil> - x" arbitrary: x rule: less_induct)
  case less
  show ?case
  proof (cases "real x < drawW")
    case False
    then show ?thesis by (subst column_loop.simps) simp
  next
    case True
    then have "real x < real_of_int \<lceil>drawW\<rceil>" by linarith
    then have "x < nat \<lceil>drawW\<rceil>" by linarith
    then have "nat \<lceil>drawW\<rceil> - (x + 2) < nat \<lceil>drawW\<rceil> - x" by simp
    from less [OF this] obtain rest
      where rest: "column_loop images js ps fovRad simX drawW drawH offX offY (Suc (Suc x)) = Inr rest"
        and dr: "\<forall>c\<in>set rest. is_draw c" by auto
    obtain idx nextIdx mix
      where f: "frame_indices (column_t js ps fovRad simX drawW x) (length images) = (idx, nextIdx, mix)"
      by (cases "frame_indices (column_t js ps fovRad simX drawW x) (length images)")
    have n: "1 \<le> length images" using ne by (simp add: Suc_leI)
    from frame_indices_range [OF column_t_range n f]
    have r: "0 \<le> idx" "idx \<le> int (length images) - 1" "0 \<le> nextIdx"
      "nextIdx \<le> int (length images) - 1" by simp_all
    have ds: "\<forall>c\<in>set (draw_slice img sx sw dx oy dh a). is_draw c" for img sx sw dx oy dh a
      by (auto simp: draw_slice_def split: option.splits)
    show ?thesis
      apply (subst column_loop.simps)
      using r dr ds by (auto simp: True Let_def f rest ebind_def)
  qed
qed

lemma renderSimulationFrame_empty:
  "renderSimulationFrame w h [] js ps simX
     = Inr [ClearRect 0 0 (real w) (real h), FillRect ''#000'' 0 0 (real w) (real h)]"
  by (simp add: renderSimulationFrame_def Let_def)

lemma renderSimulationFrame_invalid:
  assumes "images \<noteq> []"
    and "calculateFOV (lpi js) (radiusMicrons ps) (thicknessMicrons ps) (refractiveIndex ps) \<le> 0"
  shows "renderSimulationFrame w h images js ps simX
     = Inr [ClearRect 0 0 (real w) (real h), FillRect ''#000'' 0 0 (real w) (real h),
            FillText ''bold 14px monospace'' ''#ff4444'' InvalidPhysics (real w / 2) (real h / 2)]"
  using assms by (simp add: renderSimulationFrame_def Let_def)

lemma renderSimulationFrame_draws:
  assumes ne: "images \<noteq> []"
    and fov: "0 < calculateFOV (lpi js) (radiusMicrons ps) (thicknessMicrons ps) (refractiveIndex ps)"
    and wh: "0 < w" "0 < h"
  shows "\<exists>cols. (\<forall>c\<in>set cols. is_draw c)
     \<and> renderSimulationFrame w h images js ps simX
         = Inr ([ClearRect 0 0 (real w) (real h), FillRect ''#000'' 0 0 (real w) (real h)]
                @ cols
                @ (if w * h < 2000000 then [PixelEffects w h] else [])
                @ [Vignette (real w) (real h)])"
proof -
  obtain drawW drawH offX offY where b: "draw_box w h (images ! 0) = (drawW, drawH, offX, offY)"
    by (cases "draw_box w h (images ! 0)")
  from column_loop_draws [OF ne] obtain cols
    where c: "column_loop images js ps
        (calculateFOV (lpi js) (radiusMicrons ps) (thicknessMicrons ps) (refractiveIndex ps) * pi / 180)
        simX drawW drawH offX offY 0 = Inr cols"
      and d: "\<forall>c\<in>set cols. is_draw c" by blast
  have "renderSimulationFrame w h images js ps simX
         = Inr ([ClearRect 0 0 (real w) (real h), FillRect ''#000'' 0 0 (real w) (real h)]
                @ cols
                @ (if w * h < 2000000 then [PixelEffects w h] else [])
                @ [Vignette (real w) (real h)])"
    using ne fov wh by (simp add: renderSimulationFrame_def Let_def b c ebind_def)
  with d show ?thesis by blast
qed

lemma fov_lens_wide:
  "0 < calculateFOV (lpi job_127) (radiusMicrons lens_wide) (thicknessMicrons lens_wide)
         (refractiveIndex lens_wide)"
  using calculateFOV_example_pos by (simp add: job_127_def lens_wide_def job_60lpi_def)

lemma fov_lens_thin:
  "calculateFOV (lpi job_127) (radiusMicrons lens_thin) (thicknessMicrons lens_thin)
         (refractiveIndex lens_thin) \<le> 0"
  using calculateFOV_thin_zero by (simp add: job_127_def lens_thin_def job_60lpi_def)

text \<open>
  Claim C8, as the code has it. With an empty list of frames \<^verbatim>\<open>renderSimulationFrame\<close>
  clears the surface to black and returns: it draws no error indicator. With frames and a
  field of view that is not positive it draws, after the clearing, the text
  INVALID PHYSICS PARAMETERS at the centre. In both cases it draws no frame.
\<close>

theorem renderSimulationFrame_guards:
  "(images = [] \<longrightarrow>
      renderSimulationFrame w h images js ps simX
        = Inr [ClearRect 0 0 (real w) (real h), FillRect ''#000'' 0 0 (real w) (real h)])
   \<and> (images \<noteq> []
        \<and> calculateFOV (lpi js) (radiusMicrons ps) (thicknessMicrons ps) (refractiveIndex ps) \<le> 0 \<longrightarrow>
      renderSimulationFrame w h images js ps simX
        = Inr [ClearRect 0 0 (real w) (real h), FillRect ''#000'' 0 0 (real w) (real h),
               FillText ''bold 14px monospace'' ''#ff4444'' InvalidPhysics (real w / 2) (real h / 2)])
   \<and> (images = []
        \<or> calculateFOV (lpi js) (radiusMicrons ps) (thicknessMicrons ps) (refractiveIndex ps) \<le> 0 \<longrightarrow>
      (\<exists>cmds. renderSimulationFrame w h images js ps simX = Inr cmds \<and> (\<forall>c\<in>set cmds. \<not> is_draw c)))"
proof (intro conjI impI)
  assume "images = []"
  then show "renderSimulationFrame w h images js ps simX
        = Inr [ClearRect 0 0 (real w) (real h), FillRect ''#000'' 0 0 (real w) (real h)]"
    by (simp add: renderSimulationFrame_empty)
next
  assume "images \<noteq> []
        \<and> calculateFOV (lpi js) (radiusMicrons ps) (thicknessMicrons ps) (refractiveIndex ps) \<le> 0"
  then show "renderSimulationFrame w h images js ps simX
        = Inr [ClearRect 0 0 (real w) (real h), FillRect ''#000'' 0 0 (real w) (real h),
               FillText ''bold 14px monospace'' ''#ff4444'' InvalidPhysics (real w / 2) (real h / 2)]"
    by (simp add: renderSimulationFrame_invalid)
next
  assume a: "images = []
        \<or> calculateFOV (lpi js) (radiusMicrons ps) (thicknessMicrons ps) (refractiveIndex ps) \<le> 0"
  show "\<exists>cmds. renderSimulationFrame w h images js ps simX = Inr cmds \<and> (\<forall>c\<in>set cmds. \<not> is_draw c)"
  proof (cases "images = []")
    case True
    then show ?thesis by (simp add: renderSimulationFrame_empty)
  next
    case False
    with a show ?thesis by (simp add: renderSimulationFrame_invalid)
  qed
qed

text \<open>Both cases on a surface of 800 by 600, with the lens that is too thin.\<close>

theorem renderSimulationFrame_guards_witness:
  "renderSimulationFrame 800 600 [] job_127 lens_thin (1 / 2)
     = Inr [ClearRect 0 0 800 600, FillRect ''#000'' 0 0 800 600]
   \<and> [image_of frame_A] \<noteq> []
   \<and> calculateFOV (lpi job_127) (radiusMicrons lens_thin) (thicknessMicrons lens_thin)
        (refractiveIndex lens_thin) \<le> 0
   \<and> renderSimulationFrame 800 600 [image_of frame_A] job_127 lens_thin (1 / 2)
     = Inr [ClearRect 0 0 800 600, FillRect ''#000'' 0 0 800 600,
            FillText ''bold 14px monospace'' ''#ff4444'' InvalidPhysics 400 300]"
  using renderSimulationFrame_guards [of "[]" 800 600 job_127 lens_thin "1 / 2"]
    renderSimulationFrame_guards [of "[image_of frame_A]" 800 600 job_127 lens_thin "1 / 2"]
    fov_lens_thin
  by simp

text \<open>
  Claim C8 as stated fails for the empty list of frames: the calls are the clearing
  and the black fill, and nothing else.
\<close>

theorem renderSimulationFrame_empty_counterexample:
  "renderSimulationFrame 800 600 [] job_127 lens_wide (1 / 2)
     = Inr [ClearRect 0 0 800 600, FillRect ''#000'' 0 0 800 600]"
  using renderSimulationFrame_empty [of 800 600 job_127 lens_wide "1 / 2"] by simp

text \<open>
  Claim C9, as the code has it. On a surface of positive width and height, with
  frames and a positive field of view, the calls are the clearing, the frame draws, then
  the pass over the pixels (scanline darkening and chromatic aberration) exactly when
  \<open>width * height < 2000000\<close>, then the vignette, which is drawn whatever the size.
\<close>

theorem renderSimulationFrame_effects:
  assumes "images \<noteq> []"
    and "0 < calculateFOV (lpi js) (radiusMicrons ps) (thicknessMicrons ps) (refractiveIndex ps)"
    and "0 < w" "0 < h"
  shows "\<exists>cols. (\<forall>c\<in>set cols. is_draw c)
     \<and> renderSimulationFrame w h images js ps simX
         = Inr ([ClearRect 0 0 (real w) (real h), FillRect ''#000'' 0 0 (real w) (real h)]
                @ cols
                @ (if w * h < 2000000 then [PixelEffects w h] else [])
                @ [Vignette (real w) (real h)])"
  using assms by (rule renderSimulationFrame_draws)

text \<open>A surface of 800 by 600 gets the pass over the pixels and the vignette.\<close>

theorem renderSimulationFrame_effects_witness:
  "[image_of frame_A] \<noteq> []
   \<and> 0 < calculateFOV (lpi job_127) (radiusMicrons lens_wide) (thicknessMicrons lens_wide)
        (refractiveIndex lens_wide)
   \<and> (\<exists>cols. (\<forall>c\<in>set cols. is_draw c)
        \<and> renderSimulationFrame 800 600 [image_of frame_A] job_127 lens_wide (1 / 2)
            = Inr ([ClearRect 0 0 800 600, FillRect ''#000'' 0 0 800 600] @ cols
                   @ [PixelEffects 800 600] @ [Vignette 800 600]))"
  using renderSimulationFrame_effects [of "[image_of frame_A]" job_127 lens_wide 800 600 "1 / 2"]
    fov_lens_wide
  by simp

text \<open>
  Claim C9 as stated fails for the vignette: a surface of 2000 by 1000 has 2000000
  pixels, which is not below the budget, and the vignette is drawn on it.
\<close>

theorem renderSimulationFrame_vignette_counterexample:
  "\<not> (2000 * 1000 < (2000000 :: nat))
   \<and> (\<exists>cols. (\<forall>c\<in>set cols. is_draw c)
        \<and> renderSimulationFrame 2000 1000 [image_of frame_A] job_127 lens_wide (1 / 2)
            = Inr ([ClearRect 0 0 2000 1000, FillRect ''#000'' 0 0 2000 1000] @ cols
                   @ [Vignette 2000 1000]))"
  using renderSimulationFrame_draws [of "[image_of frame_A]" job_127 lens_wide 2000 1000 "1 / 2"]
    fov_lens_wide
  by simp

text \<open>
  Claim C10. With a non-empty list of frames and a positive field of view, for every
  column \<open>x\<close> the indices \<^verbatim>\<open>idx\<close> and \<^verbatim>\<open>nextIdx\<close> computed from the wrapped \<^verbatim>\<open>t\<close> lie
  between 0 and \<open>numFrames - 1\<close>, and are both 0 for a single frame; no access to the
  array of frames is out of bounds, so that \<^verbatim>\<open>renderSimulationFrame\<close> never raises
  TypeError.
\<close>

theorem frame_indices_in_bounds:
  assumes "images \<noteq> []"
    and "0 < calculateFOV (lpi js) (radiusMicrons ps) (thicknessMicrons ps) (refractiveIndex ps)"
  shows "(\<forall>x drawW.
           case frame_indices
                  (column_t js ps
                     (calculateFOV (lpi js) (radiusMicrons ps) (thicknessMicrons ps)
                        (refractiveIndex ps) * pi / 180) simX drawW x)
                  (length images) of
             (idx, nextIdx, mix) \<Rightarrow>
               0 \<le> idx \<and> idx \<le> int (length images) - 1
               \<and> 0 \<le> nextIdx \<and> nextIdx \<le> int (length images) - 1
               \<and> (length images = 1 \<longrightarrow> idx = 0 \<and> nextIdx = 0))
       \<and> renderSimulationFrame w h images js ps simX \<noteq> Inl TypeError"
proof (intro conjI allI)
  fix x drawW
  let ?t = "column_t js ps
      (calculateFOV (lpi js) (radiusMicrons ps) (thicknessMicrons ps) (refractiveIndex ps) * pi / 180)
      simX drawW x"
  obtain idx nextIdx mix where f: "frame_indices ?t (length images) = (idx, nextIdx, mix)"
    by (cases "frame_indices ?t (length images)")
  have n: "1 \<le> length images" using assms(1) by (simp add: Suc_leI)
  from frame_indices_range [OF column_t_range n f]
  show "case frame_indices ?t (length images) of
             (idx, nextIdx, mix) \<Rightarrow>
               0 \<le> idx \<and> idx \<le> int (length images) - 1
               \<and> 0 \<le> nextIdx \<and> nextIdx \<le> int (length images) - 1
               \<and> (length images = 1 \<longrightarrow> idx = 0 \<and> nextIdx = 0)"
    unfolding f by simp
next
  obtain drawW drawH offX offY where b: "draw_box w h (images ! 0) = (drawW, drawH, offX, offY)"
    by (cases "draw_box w h (images ! 0)")
  from column_loop_draws [OF assms(1)] obtain cols
    where c: "column_loop images js ps
        (calculateFOV (lpi js) (radiusMicrons ps) (thicknessMicrons ps) (refractiveIndex ps) * pi / 180)
        simX drawW drawH offX offY 0 = Inr cols" by blast
  show "renderSimulationFrame w h images js ps simX \<noteq> Inl TypeError"
    using assms by (simp add: renderSimulationFrame_def Let_def b c ebind_def)
qed

text \<open>Three frames, column 100 of 800.\<close>

theorem frame_indices_in_bounds_witness:
  "[image_of frame_A, image_of frame_B, image_of frame_C] \<noteq> []
   \<and> 0 < calculateFOV (lpi job_127) (radiusMicrons lens_wide) (thicknessMicrons lens_wide)
        (refractiveIndex lens_wide)
   \<and> 0 \<le> fst (frame_indices
        (column_t job_127 lens_wide
           (calculateFOV (lpi job_127) (radiusMicrons lens_wide) (thicknessMicrons lens_wide)
              (refractiveIndex lens_wide) * pi / 180) (1 / 2) 800 100) 3)
   \<and> fst (frame_indices
        (column_t job_127 lens_wide
           (calculateFOV (lpi job_127) (radiusMicrons lens_wide) (thicknessMicrons lens_wide)
              (refractiveIndex lens_wide) * pi / 180) (1 / 2) 800 100) 3) \<le> 2
   \<and> fst (snd (frame_indices
        (column_t job_127 lens_wide
           (calculateFOV (lpi job_127) (radiusMicrons lens_wide) (thicknessMicrons lens_wide)
              (refractiveIndex lens_wide) * pi / 180) (1 / 2) 800 100) 3)) \<le> 2
   \<and> renderSimulationFrame 800 600 [image_of frame_A, image_of frame_B, image_of frame_C]
        job_127 lens_wide (1 / 2) \<noteq> Inl TypeError"
proof -
  have ne: "[image_of frame_A, image_of frame_B, image_of frame_C] \<noteq> []" by simp
  note t = frame_indices_in_bounds [OF ne fov_lens_wide, of "1 / 2" 800 600]
  have len3: "length [image_of frame_A, image_of frame_B, image_of frame_C] = 3" by simp
  note a = t [THEN conjunct1, THEN spec [where x = 100], THEN spec [where x = 800], unfolded len3]
  note b = t [THEN conjunct2]
  from a b fov_lens_wide show ?thesis by (simp add: case_prod_unfold)
qed

end
